theory Spec2Isabelle
  imports Main "HOL-Library.Word"
begin

section \<open>JavaScript strings and values\<close>

text \<open>
  A JavaScript string is a sequence of 16-bit code units. String literals of the source
  are ASCII and are written \<open>js ''...''\<close>.
\<close>

type_synonym code_unit = "16 word"
type_synonym jsstring = "code_unit list"

definition js :: "string \<Rightarrow> jsstring" where
  "js s = map of_char s"

text \<open>
  The values a variable of the source can hold, as far as \<open>!v\<close> and \<open>typeof v\<close>
  tell them apart.
\<close>

datatype jsvalue =
    JSUndefined
  | JSNull
  | JSBoolean bool
  | JSNumber int
  | JSString jsstring
  | JSObject

fun truthy :: "jsvalue \<Rightarrow> bool" where
  "truthy JSUndefined = False"
| "truthy JSNull = False"
| "truthy (JSBoolean b) = b"
| "truthy (JSNumber n) = (n \<noteq> 0)"
| "truthy (JSString s) = (s \<noteq> [])"
| "truthy JSObject = True"

fun typeof :: "jsvalue \<Rightarrow> string" where
  "typeof JSUndefined = ''undefined''"
| "typeof JSNull = ''object''"
| "typeof (JSBoolean b) = ''boolean''"
| "typeof (JSNumber n) = ''number''"
| "typeof (JSString s) = ''string''"
| "typeof JSObject = ''object''"

text \<open>
  The code units that \<open>String.prototype.trim\<close> strips and that \<open>\s\<close> matches in a
  regular expression: ECMAScript's WhiteSpace and LineTerminator.
\<close>

definition isWhiteSpace :: "code_unit \<Rightarrow> bool" where
  "isWhiteSpace c \<longleftrightarrow>
     c = 0x09 \<or> c = 0x0A \<or> c = 0x0B \<or> c = 0x0C \<or> c = 0x0D \<or> c = 0x20 \<or>
     c = 0xA0 \<or> c = 0x1680 \<or> (0x2000 \<le> c \<and> c \<le> 0x200A) \<or>
     c = 0x2028 \<or> c = 0x2029 \<or> c = 0x202F \<or> c = 0x205F \<or> c = 0x3000 \<or>
     c = 0xFEFF"

definition trim :: "jsstring \<Rightarrow> jsstring" where
  "trim s = rev (dropWhile isWhiteSpace (rev (dropWhile isWhiteSpace s)))"

section \<open>Regular expressions\<close>

text \<open>
  The regular expressions of the source use character classes, concatenation,
  \<open>+\<close>, \<open>?\<close> and the anchors \<open>^\<close> and \<open>$\<close> only. \<open>matches r s\<close> decides whether
  the whole of \<open>s\<close> matches \<open>r\<close>, by derivatives.
\<close>

datatype regex =
    Never
  | Empty
  | Class "code_unit \<Rightarrow> bool"
  | Cat regex regex
  | Or regex regex
  | Star regex

definition lit :: "code_unit \<Rightarrow> regex" where
  "lit c = Class (\<lambda>x. x = c)"

definition plus :: "regex \<Rightarrow> regex" where
  "plus r = Cat r (Star r)"

definition opt :: "regex \<Rightarrow> regex" where
  "opt r = Or r Empty"

fun lits :: "jsstring \<Rightarrow> regex" where
  "lits [] = Empty"
| "lits (c # cs) = Cat (lit c) (lits cs)"

fun nullable :: "regex \<Rightarrow> bool" where
  "nullable Never = False"
| "nullable Empty = True"
| "nullable (Class p) = False"
| "nullable (Cat a b) = (nullable a \<and> nullable b)"
| "nullable (Or a b) = (nullable a \<or> nullable b)"
| "nullable (Star a) = True"

fun deriv :: "code_unit \<Rightarrow> regex \<Rightarrow> regex" where
  "deriv c Never = Never"
| "deriv c Empty = Never"
| "deriv c (Class p) = (if p c then Empty else Never)"
| "deriv c (Cat a b) =
     (if nullable a then Or (Cat (deriv c a) b) (deriv c b) else Cat (deriv c a) b)"
| "deriv c (Or a b) = Or (deriv c a) (deriv c b)"
| "deriv c (Star a) = Cat (deriv c a) (Star a)"

fun matches :: "regex \<Rightarrow> jsstring \<Rightarrow> bool" where
  "matches r [] = nullable r"
| "matches r (c # cs) = matches (deriv c r) cs"

text \<open>The strings a regular expression denotes, as a reference for \<open>matches\<close>.\<close>

inductive accepts :: "regex \<Rightarrow> jsstring \<Rightarrow> bool" where
  acc_empty: "accepts Empty []"
| acc_class: "p c \<Longrightarrow> accepts (Class p) [c]"
| acc_cat: "accepts a u \<Longrightarrow> accepts b v \<Longrightarrow> accepts (Cat a b) (u @ v)"
| acc_or1: "accepts a u \<Longrightarrow> accepts (Or a b) u"
| acc_or2: "accepts b u \<Longrightarrow> accepts (Or a b) u"
| acc_star0: "accepts (Star a) []"
| acc_star1: "accepts a u \<Longrightarrow> accepts (Star a) v \<Longrightarrow> accepts (Star a) (u @ v)"

section \<open>Email validation\<close>

text \<open>\<open>[^\s@]\<close>: any code unit that is neither white space nor \<open>@\<close>.\<close>

definition notSpaceAt :: "code_unit \<Rightarrow> bool" where
  "notSpaceAt c \<longleftrightarrow> \<not> isWhiteSpace c \<and> c \<noteq> 0x40"

text \<open>\<open>/^[^\s@]+@[^\s@]+\.[^\s@]+$/\<close>\<close>

definition emailRegex :: regex where
  "emailRegex =
     Cat (plus (Class notSpaceAt))
       (Cat (lit 0x40)
         (Cat (plus (Class notSpaceAt))
           (Cat (lit 0x2E) (plus (Class notSpaceAt)))))"

definition isValidEmail :: "jsvalue \<Rightarrow> bool" where
  "isValidEmail email =
     (if \<not> truthy email \<or> typeof email \<noteq> ''string'' then False
      else case email of JSString s \<Rightarrow> matches emailRegex (trim s) | _ \<Rightarrow> False)"

section \<open>Local storage\<close>

text \<open>
  \<open>localStorage\<close> holds string values under string keys. When the page is denied
  access to its storage, which it records in \<open>storageDenied\<close>, evaluating
  \<open>localStorage\<close> throws \<open>SecurityError\<close> before any call is made. Otherwise
  \<open>getItem\<close> returns \<open>null\<close> for a missing key, and \<open>setItem\<close> throws
  \<open>QuotaExceededError\<close> when the value cannot be stored, which the page records in
  \<open>quotaExceeded\<close>. Every call that is made is logged in \<open>storageCalls\<close>, whether it
  succeeds or not.
\<close>

datatype exn = SecurityError | QuotaExceededError | TypeError

datatype storage_call = GetItem jsstring | SetItem jsstring jsstring

datatype field = EmailField | PasswordField

datatype task = Redirect jsstring | RemoveElement nat

datatype console_entry =
    ConsoleLog jsstring jsstring bool
  | ConsoleError exn

record custom_event =
  eventType :: jsstring
  bubbles :: bool
  detailEmail :: jsstring
  detailTimestamp :: jsstring

section \<open>The form's elements\<close>

text \<open>
  An element carries what the selectors of the source look at: its tag name, its class
  list and its \<open>type\<close> attribute; \<open>nid\<close> is the identity of the element object.
  The form is the list of its child nodes.
\<close>

record attrs =
  nid :: nat
  tagName :: string
  classList :: "string list"
  typeAttr :: "string option"
  disabled :: bool
  textContent :: jsstring

datatype node = Node attrs "node list"

text \<open>
  A selector of the source looks at the element's own attributes.
  \<open>.form-message\<close>:
\<close>

definition is_form_message :: "attrs \<Rightarrow> bool" where
  "is_form_message a \<longleftrightarrow> ''form-message'' \<in> set (classList a)"

text \<open>\<open>button[type="submit"]\<close>:\<close>

definition is_submit_button :: "attrs \<Rightarrow> bool" where
  "is_submit_button a \<longleftrightarrow> tagName a = ''button'' \<and> typeAttr a = Some ''submit''"

text \<open>\<open>querySelector\<close>: the first descendant in document order that matches.\<close>

fun querySelector :: "(attrs \<Rightarrow> bool) \<Rightarrow> node list \<Rightarrow> node option" where
  "querySelector P [] = None"
| "querySelector P (Node a ks # ns) =
     (if P a then Some (Node a ks)
      else case querySelector P ks of
             Some n \<Rightarrow> Some n
           | None \<Rightarrow> querySelector P ns)"

text \<open>\<open>querySelectorAll(sel).length\<close>: how many descendants match.\<close>

fun count_matching :: "(attrs \<Rightarrow> bool) \<Rightarrow> node list \<Rightarrow> nat" where
  "count_matching P [] = 0"
| "count_matching P (Node a ks # ns) =
     (if P a then 1 else 0) + count_matching P ks + count_matching P ns"

text \<open>
  \<open>querySelectorAll(sel).forEach((el) => el.remove())\<close>: every matching descendant is
  detached, with its subtree.
\<close>

fun remove_matching :: "(attrs \<Rightarrow> bool) \<Rightarrow> node list \<Rightarrow> node list" where
  "remove_matching P [] = []"
| "remove_matching P (Node a ks # ns) =
     (if P a then remove_matching P ns
      else Node a (remove_matching P ks) # remove_matching P ns)"

text \<open>
  \<open>ref.parentNode.insertBefore(el, ref)\<close>, where \<open>ref\<close> is the first descendant in
  document order that matches \<open>P\<close>.
\<close>

fun insertBefore :: "(attrs \<Rightarrow> bool) \<Rightarrow> node \<Rightarrow> node list \<Rightarrow> node list" where
  "insertBefore P el [] = []"
| "insertBefore P el (Node a ks # ns) =
     (if P a then el # Node a ks # ns
      else if querySelector P ks \<noteq> None then Node a (insertBefore P el ks) # ns
      else Node a ks # insertBefore P el ns)"

text \<open>\<open>ref.disabled = true\<close> for the same \<open>ref\<close>.\<close>

fun disableFirst :: "(attrs \<Rightarrow> bool) \<Rightarrow> node list \<Rightarrow> node list" where
  "disableFirst P [] = []"
| "disableFirst P (Node a ks # ns) =
     (if P a then Node (a\<lparr>disabled := True\<rparr>) ks # ns
      else if querySelector P ks \<noteq> None then Node a (disableFirst P ks) # ns
      else Node a ks # disableFirst P ns)"

section \<open>The page\<close>

record page =
  localStorage :: "jsstring \<rightharpoonup> jsstring"
  storageDenied :: bool
  quotaExceeded :: bool
  storageCalls :: "storage_call list"
  formChildren :: "node list"
  nextId :: nat
  focused :: "field option"
  dispatched :: "custom_event list"
  timers :: "(nat \<times> task) list"
  console :: "console_entry list"
  location :: jsstring

definition getItem :: "jsstring \<Rightarrow> page \<Rightarrow> (exn + jsvalue) \<times> page" where
  "getItem key p =
     (if storageDenied p then (Inl SecurityError, p)
      else (Inr (case localStorage p key of None \<Rightarrow> JSNull | Some v \<Rightarrow> JSString v),
            p\<lparr>storageCalls := storageCalls p @ [GetItem key]\<rparr>))"

definition setItem :: "jsstring \<Rightarrow> jsstring \<Rightarrow> page \<Rightarrow> exn option \<times> page" where
  "setItem key v p =
     (if storageDenied p then (Some SecurityError, p)
      else let p' = p\<lparr>storageCalls := storageCalls p @ [SetItem key v]\<rparr>
           in if quotaExceeded p then (Some QuotaExceededError, p')
              else (None, p'\<lparr>localStorage := (localStorage p)(key \<mapsto> v)\<rparr>))"

definition setTimeout :: "task \<Rightarrow> nat \<Rightarrow> page \<Rightarrow> page" where
  "setTimeout t ms p = p\<lparr>timers := timers p @ [(ms, t)]\<rparr>"

definition focus :: "field \<Rightarrow> page \<Rightarrow> page" where
  "focus f p = p\<lparr>focused := Some f\<rparr>"

definition dispatchEvent :: "custom_event \<Rightarrow> page \<Rightarrow> page" where
  "dispatchEvent ev p = p\<lparr>dispatched := dispatched p @ [ev]\<rparr>"

definition console_write :: "console_entry \<Rightarrow> page \<Rightarrow> page" where
  "console_write e p = p\<lparr>console := console p @ [e]\<rparr>"

section \<open>Messages\<close>

definition createMessage :: "nat \<Rightarrow> string \<Rightarrow> jsstring \<Rightarrow> node" where
  "createMessage i kind message =
     Node \<lparr>nid = i, tagName = ''div'', classList = [''form-message'', kind],
           typeAttr = None, disabled = False, textContent = message\<rparr> []"

definition showSuccessMessage :: "jsstring \<Rightarrow> page \<Rightarrow> page" where
  "showSuccessMessage message p =
     (let kept = remove_matching is_form_message (formChildren p);
          messageEl = createMessage (nextId p) ''success'' message;
          shown = (case querySelector is_submit_button kept of
                     Some submitButton \<Rightarrow>
                       disableFirst is_submit_button
                         (insertBefore is_submit_button messageEl kept)
                   | None \<Rightarrow> kept @ [messageEl])
      in p\<lparr>formChildren := shown, nextId := Suc (nextId p)\<rparr>)"

definition showErrorMessage :: "jsstring \<Rightarrow> page \<Rightarrow> page" where
  "showErrorMessage message p =
     (let kept = remove_matching is_form_message (formChildren p);
          messageEl = createMessage (nextId p) ''error'' message;
          shown = (case querySelector is_submit_button kept of
                     Some submitButton \<Rightarrow> insertBefore is_submit_button messageEl kept
                   | None \<Rightarrow> kept @ [messageEl])
      in setTimeout (RemoveElement (nextId p)) 5000
           (p\<lparr>formChildren := shown, nextId := Suc (nextId p)\<rparr>))"

section \<open>Dates\<close>

text \<open>
  \<open>new Date().toISOString()\<close>, for the time value \<open>t\<close> of the new date: the
  milliseconds since 1970-01-01T00:00Z, at most 8.64e15 either way, so that the year has
  at most six digits. ECMAScript's \<open>DaysInYear\<close>:
\<close>

definition isLeapYear :: "int \<Rightarrow> bool" where
  "isLeapYear y \<longleftrightarrow> (y mod 4 = 0 \<and> y mod 100 \<noteq> 0) \<or> y mod 400 = 0"

definition daysInYear :: "int \<Rightarrow> nat" where
  "daysInYear y = (if isLeapYear y then 366 else 365)"

text \<open>
  \<open>YearFromTime\<close> and \<open>DayWithinYear\<close>: the year in which day \<open>d\<close> after the first of
  January of year \<open>y\<close> falls, and the day's number within that year.
\<close>

function yearFromDays :: "int \<Rightarrow> nat \<Rightarrow> int \<times> nat" where
  "yearFromDays y d =
     (if d < daysInYear y then (y, d) else yearFromDays (y + 1) (d - daysInYear y))"
  by pat_completeness auto
termination
  by (relation "measure (\<lambda>(y, d). d)") (auto simp: daysInYear_def)

text \<open>\<open>MonthFromTime\<close> and \<open>DateFromTime\<close>, both counted from 1, by the table of the months.\<close>

definition monthLengths :: "int \<Rightarrow> nat list" where
  "monthLengths y = [31, if isLeapYear y then 29 else 28, 31, 30, 31, 30, 31, 31, 30, 31, 30, 31]"

fun monthFromDay :: "nat list \<Rightarrow> nat \<Rightarrow> nat \<Rightarrow> nat \<times> nat" where
  "monthFromDay [] m d = (m, d + 1)"
| "monthFromDay (l # ls) m d =
     (if d < l then (m, d + 1) else monthFromDay ls (m + 1) (d - l))"

text \<open>Decimal digits, and numbers padded with zeros to a fixed width.\<close>

definition digit :: "nat \<Rightarrow> code_unit" where
  "digit n = of_nat (48 + n mod 10)"

definition pad2 :: "nat \<Rightarrow> jsstring" where
  "pad2 n = [digit (n div 10), digit n]"

definition pad3 :: "nat \<Rightarrow> jsstring" where
  "pad3 n = [digit (n div 100), digit (n div 10), digit n]"

definition pad4 :: "nat \<Rightarrow> jsstring" where
  "pad4 n = [digit (n div 1000), digit (n div 100), digit (n div 10), digit n]"

definition pad6 :: "nat \<Rightarrow> jsstring" where
  "pad6 n = [digit (n div 100000), digit (n div 10000), digit (n div 1000),
             digit (n div 100), digit (n div 10), digit n]"

text \<open>Four digits for the years 0 to 9999, a sign and six digits for any other.\<close>

definition yearString :: "int \<Rightarrow> jsstring" where
  "yearString y =
     (if 0 \<le> y \<and> y \<le> 9999 then pad4 (nat y)
      else (if y < 0 then js ''-'' else js ''+'') @ pad6 (nat \<bar>y\<bar>))"

text \<open>
  \<open>YYYY-MM-DDTHH:mm:ss.sssZ\<close>. A cycle of 400 years has 146097 days, so the search for
  the year starts at the first year of the day's cycle.
\<close>

definition toISOString :: "int \<Rightarrow> jsstring" where
  "toISOString t =
     (let day = t div 86400000;
          msInDay = nat (t mod 86400000);
          (y, dayInYear) = yearFromDays (1970 + 400 * (day div 146097)) (nat (day mod 146097));
          (m, d) = monthFromDay (monthLengths y) 1 dayInYear
      in yearString y @ js ''-'' @ pad2 m @ js ''-'' @ pad2 d @ js ''T'' @
         pad2 (msInDay div 3600000) @ js '':'' @ pad2 (msInDay div 60000 mod 60) @ js '':'' @
         pad2 (msInDay div 1000 mod 60) @ js ''.'' @ pad3 (msInDay mod 1000) @ js ''Z'')"

section \<open>The submit handler\<close>

definition REGISTERED_EMAIL_KEY :: jsstring where
  "REGISTERED_EMAIL_KEY = js ''com.adobe.reactor.dataElements.Profile - Email''"

definition SESSION_FLAG_KEY :: jsstring where
  "SESSION_FLAG_KEY = js ''luma_user_logged_in''"

text \<open>\<open>s.replace(/[...]/g, rep)\<close> for a character class: every matching code unit is replaced.\<close>

definition replace_class_all :: "(code_unit \<Rightarrow> bool) \<Rightarrow> jsstring \<Rightarrow> jsstring \<Rightarrow> jsstring" where
  "replace_class_all P rep s = concat (map (\<lambda>c. if P c then rep else [c]) s)"

text \<open>\<open>[\*\"\']\<close>: asterisk, double quote, single quote.\<close>

definition asteriskOrQuote :: "code_unit \<Rightarrow> bool" where
  "asteriskOrQuote c \<longleftrightarrow> c = 0x2A \<or> c = 0x22 \<or> c = 0x27"

text \<open>Lines 133 to 137: the stored value is cleaned when it is truthy.\<close>

definition cleanRegistered :: "jsvalue \<Rightarrow> jsvalue" where
  "cleanRegistered registeredEmail =
     (if truthy registeredEmail
      then (case registeredEmail of
              JSString s \<Rightarrow> JSString (trim (replace_class_all asteriskOrQuote [] s))
            | v \<Rightarrow> v)
      else registeredEmail)"

datatype outcome =
    FieldsNotFound
  | RejectedInvalidEmail
  | RejectedEmptyPassword
  | RejectedNoAccount
  | RejectedMismatch
  | Accepted
  | Uncaught exn

text \<open>The body of the \<open>try\<close> block; it stops at the statement that throws.\<close>

definition signInEffects :: "jsstring \<Rightarrow> int \<Rightarrow> page \<Rightarrow> exn option \<times> page" where
  "signInEffects enteredEmail now p =
     (case setItem SESSION_FLAG_KEY (js ''true'') p of
        (Some e, p1) \<Rightarrow> (Some e, p1)
      | (None, p1) \<Rightarrow>
          (None,
           setTimeout (Redirect (js ''/'')) 1500
             (showSuccessMessage (js ''Sign-in successful! Redirecting...'')
               (dispatchEvent
                  \<lparr>eventType = js ''login'', bubbles = True,
                   detailEmail = enteredEmail, detailTimestamp = toISOString now\<rparr> p1))))"

text \<open>
  The listener of the form's \<open>submit\<close> event. \<open>emailInput\<close> and \<open>passwordInput\<close>
  are the values of the two input elements, \<open>None\<close> when the element is not found;
  \<open>toLowerCase\<close> is \<open>String.prototype.toLowerCase\<close> and \<open>now\<close> is the time
  value of \<open>new Date()\<close>. The first component of the result names the \<open>return\<close>
  that ended the listener, or the exception that left it: the listener is an async
  function, so that exception is an unhandled rejection.
\<close>

definition onSubmit ::
  "(jsstring \<Rightarrow> jsstring) \<Rightarrow> int \<Rightarrow> jsstring option \<Rightarrow> jsstring option \<Rightarrow> page
     \<Rightarrow> outcome \<times> page" where
  "onSubmit toLowerCase now emailInput passwordInput p =
     (case (emailInput, passwordInput) of
        (Some emailValue, Some passwordValue) \<Rightarrow>
          (let enteredEmail = trim emailValue;
               enteredPassword = passwordValue
           in if \<not> isValidEmail (JSString enteredEmail)
              then (RejectedInvalidEmail,
                    focus EmailField
                      (showErrorMessage (js ''Please enter a valid email address'') p))
              else if \<not> truthy (JSString enteredPassword) \<or> trim enteredPassword = []
              then (RejectedEmptyPassword,
                    focus PasswordField
                      (showErrorMessage (js ''Please enter your password'') p))
              else
                (case getItem REGISTERED_EMAIL_KEY p of
                   (Inl error, p1) \<Rightarrow> (Uncaught error, p1)
                 | (Inr stored, p1) \<Rightarrow>
                     (let registeredEmail = cleanRegistered stored
                      in if \<not> truthy registeredEmail \<or> \<not> isValidEmail registeredEmail
                         then (RejectedNoAccount,
                               showErrorMessage
                                 (js ''No account found. Please create an account first.'') p1)
                         else
                           (case registeredEmail of
                              JSString registered \<Rightarrow>
                                (let p2 = console_write
                                            (ConsoleLog enteredEmail registered
                                               (toLowerCase enteredEmail = toLowerCase registered))
                                            p1
                                 in if toLowerCase enteredEmail \<noteq> toLowerCase registered
                                    then (RejectedMismatch,
                                          focus EmailField
                                            (showErrorMessage
                                               (js ''Email not found. Please check your email or create an account.'')
                                               p2))
                                    else
                                      (case signInEffects enteredEmail now p2 of
                                         (None, p3) \<Rightarrow> (Accepted, p3)
                                       | (Some error, p3) \<Rightarrow>
                                           (Accepted,
                                            showErrorMessage
                                              (js ''Sign-in failed. Please try again.'')
                                              (console_write (ConsoleError error) p3))))
                            | _ \<Rightarrow> (Uncaught TypeError, p1)))))
      | _ \<Rightarrow> (FieldsNotFound, showErrorMessage (js ''Form fields not found'') p))"

section \<open>Timers and runs\<close>

text \<open>A pending callback fires: the redirect, or \<open>messageEl.remove()\<close>.\<close>

definition runTask :: "task \<Rightarrow> page \<Rightarrow> page" where
  "runTask t p =
     (case t of
        Redirect url \<Rightarrow> p\<lparr>location := url\<rparr>
      | RemoveElement i \<Rightarrow>
          p\<lparr>formChildren := remove_matching (\<lambda>a. nid a = i) (formChildren p)\<rparr>)"

definition fireTimer :: "nat \<Rightarrow> page \<Rightarrow> page" where
  "fireTimer i p =
     (if i < length (timers p)
      then runTask (snd (timers p ! i)) (p\<lparr>timers := take i (timers p) @ drop (Suc i) (timers p)\<rparr>)
      else p)"

datatype event = Submit "jsstring option" "jsstring option" int | TimerFires nat

fun step :: "(jsstring \<Rightarrow> jsstring) \<Rightarrow> event \<Rightarrow> page \<Rightarrow> page" where
  "step lc (Submit e pw now) p = snd (onSubmit lc now e pw p)"
| "step lc (TimerFires i) p = fireTimer i p"

fun run :: "(jsstring \<Rightarrow> jsstring) \<Rightarrow> event list \<Rightarrow> page \<Rightarrow> page" where
  "run lc [] p = p"
| "run lc (ev # evs) p = run lc evs (step lc ev p)"

section \<open>The registration link\<close>

text \<open>
  \<open>s.replace(pat, rep)\<close> with a string pattern: the first occurrence is replaced. The
  replacement strings of the source contain no \<open>$\<close>.
\<close>

fun replace_first :: "jsstring \<Rightarrow> jsstring \<Rightarrow> jsstring \<Rightarrow> jsstring" where
  "replace_first pat rep [] = (if pat = [] then rep else [])"
| "replace_first pat rep (c # cs) =
     (if take (length pat) (c # cs) = pat then rep @ drop (length pat) (c # cs)
      else c # replace_first pat rep cs)"

text \<open>
  \<open>s.replace(/r$/, rep)\<close>: the match starts at the leftmost position from which the
  rest of the string matches \<open>r\<close>, and runs to the end.
\<close>

fun replace_regex_end :: "regex \<Rightarrow> jsstring \<Rightarrow> jsstring \<Rightarrow> jsstring" where
  "replace_regex_end r rep [] = (if matches r [] then rep else [])"
| "replace_regex_end r rep (c # cs) =
     (if matches r (c # cs) then rep else c # replace_regex_end r rep cs)"

text \<open>\<open>/\/sign-in(\.html)?$/\<close> without its anchor.\<close>

definition signInRegex :: regex where
  "signInRegex = Cat (lits (js ''/sign-in'')) (opt (lits (js ''.html'')))"

text \<open>Lines 282 to 297 of \<open>addCreateAccountLink\<close>.\<close>

definition registrationPath :: "jsstring \<Rightarrow> bool \<Rightarrow> jsstring" where
  "registrationPath currentPath isAuthor =
     (if isAuthor
      then replace_first (js ''/sign-in.html'') (js ''/registration.html'') currentPath
      else replace_regex_end signInRegex (js ''/registration'') currentPath)"

section \<open>Where a message stands\<close>

text \<open>
  The previous sibling of the first descendant in document order that matches \<open>P\<close>;
  \<open>prev\<close> is the sibling before the list. \<open>None\<close> when nothing matches or the match is
  a first child.
\<close>

fun previousSibling :: "(attrs \<Rightarrow> bool) \<Rightarrow> node option \<Rightarrow> node list \<Rightarrow> node option" where
  "previousSibling P prev [] = None"
| "previousSibling P prev (Node a ks # ns) =
     (if P a then prev
      else if querySelector P ks \<noteq> None then previousSibling P None ks
      else previousSibling P (Some (Node a ks)) ns)"

text \<open>
  On strings of ASCII code units \<open>String.prototype.toLowerCase\<close> is \<open>asciiLower\<close>;
  it stands for \<open>toLowerCase\<close> in the examples.
\<close>

definition asciiLower :: "jsstring \<Rightarrow> jsstring" where
  "asciiLower s = map (\<lambda>c. if 0x41 \<le> c \<and> c \<le> 0x5A then c + 0x20 else c) s"

section \<open>The specification's words\<close>

text \<open>
  An ISO-8601 timestamp, as a regular expression for the whole string: a year of four
  digits, or of six with a sign, then month, date, \<open>T\<close>, hours, minutes, seconds, a
  fraction of three digits, and \<open>Z\<close>.
\<close>

definition between :: "code_unit \<Rightarrow> code_unit \<Rightarrow> regex" where
  "between lo hi = Class (\<lambda>c. lo \<le> c \<and> c \<le> hi)"

definition digitR :: regex where
  "digitR = between 0x30 0x39"

definition yearR :: regex where
  "yearR = Or (Cat digitR (Cat digitR (Cat digitR digitR)))
              (Cat (Or (lit 0x2B) (lit 0x2D))
                 (Cat digitR (Cat digitR (Cat digitR (Cat digitR (Cat digitR digitR))))))"

definition monthR :: regex where
  "monthR = Or (Cat (lit 0x30) (between 0x31 0x39)) (Cat (lit 0x31) (between 0x30 0x32))"

definition dateR :: regex where
  "dateR = Or (Cat (lit 0x30) (between 0x31 0x39))
              (Or (Cat (between 0x31 0x32) digitR) (Cat (lit 0x33) (between 0x30 0x31)))"

definition hourR :: regex where
  "hourR = Or (Cat (between 0x30 0x31) digitR) (Cat (lit 0x32) (between 0x30 0x33))"

definition sixtyR :: regex where
  "sixtyR = Cat (between 0x30 0x35) digitR"

definition isoRegex :: regex where
  "isoRegex =
     Cat yearR (Cat (lit 0x2D) (Cat monthR (Cat (lit 0x2D) (Cat dateR (Cat (lit 0x54)
       (Cat hourR (Cat (lit 0x3A) (Cat sixtyR (Cat (lit 0x3A) (Cat sixtyR (Cat (lit 0x2E)
         (Cat (Cat digitR (Cat digitR digitR)) (lit 0x5A)))))))))))))"

text \<open>\<open>s.includes(pat)\<close> and \<open>s.endsWith(suf)\<close>, to state what a path contains.\<close>

fun contains :: "jsstring \<Rightarrow> jsstring \<Rightarrow> bool" where
  "contains [] pat = (pat = [])"
| "contains (c # cs) pat = (take (length pat) (c # cs) = pat \<or> contains cs pat)"

definition endsWith :: "jsstring \<Rightarrow> jsstring \<Rightarrow> bool" where
  "endsWith s suf \<longleftrightarrow> length suf \<le> length s \<and> drop (length s - length suf) s = suf"

definition dropEnd :: "nat \<Rightarrow> jsstring \<Rightarrow> jsstring" where
  "dropEnd n s = take (length s - n) s"

text \<open>
  The navigation link composer as the specification words it: in the authoring
  environment a trailing \<open>/sign-in.html\<close> becomes \<open>/registration.html\<close>; otherwise a
  trailing \<open>/sign-in\<close> or \<open>/sign-in.html\<close> becomes \<open>/registration\<close>; any other path
  is returned as it is.
\<close>

definition composeRegistrationPath :: "jsstring \<Rightarrow> bool \<Rightarrow> jsstring" where
  "composeRegistrationPath path isAuthoring =
     (if isAuthoring
      then (if endsWith path (js ''/sign-in.html'')
            then dropEnd 13 path @ js ''/registration.html'' else path)
      else if endsWith path (js ''/sign-in'')
           then dropEnd 8 path @ js ''/registration''
      else if endsWith path (js ''/sign-in.html'')
           then dropEnd 13 path @ js ''/registration''
      else path)"

text \<open>
  The credential store reader as the specification words it: the value under the fixed
  key, with every asterisk and quote deleted and surrounding white space trimmed; absent
  when the key is missing, when the sanitized value is empty, or when it fails
  \<open>isValidEmail\<close>.
\<close>

definition sanitize :: "jsstring \<Rightarrow> jsstring" where
  "sanitize v = trim (filter (\<lambda>c. c \<noteq> 0x2A \<and> c \<noteq> 0x22 \<and> c \<noteq> 0x27) v)"

definition credentialRecord :: "(jsstring \<rightharpoonup> jsstring) \<Rightarrow> jsstring option" where
  "credentialRecord store =
     (case store REGISTERED_EMAIL_KEY of
        None \<Rightarrow> None
      | Some v \<Rightarrow>
          if sanitize v = [] \<or> \<not> isValidEmail (JSString (sanitize v)) then None
          else Some (sanitize v))"

text \<open>A password is blank when it is empty or consists of white space only.\<close>

definition blank :: "jsstring \<Rightarrow> bool" where
  "blank s \<longleftrightarrow> list_all isWhiteSpace s"

text \<open>
  The authentication decision as the specification words it, in its fixed order.
  \<open>enteredEmail\<close> is the trimmed value of the email field.
\<close>

definition decide ::
  "(jsstring \<Rightarrow> jsstring) \<Rightarrow> jsstring \<Rightarrow> jsstring \<Rightarrow> (jsstring \<rightharpoonup> jsstring) \<Rightarrow> outcome" where
  "decide toLowerCase enteredEmail enteredPassword store =
     (if \<not> isValidEmail (JSString enteredEmail) then RejectedInvalidEmail
      else if blank enteredPassword then RejectedEmptyPassword
      else case credentialRecord store of
             None \<Rightarrow> RejectedNoAccount
           | Some registered \<Rightarrow>
               if toLowerCase enteredEmail \<noteq> toLowerCase registered then RejectedMismatch
               else Accepted)"

text \<open>The page once the credential has been read.\<close>

definition afterRead :: "page \<Rightarrow> page" where
  "afterRead p = p\<lparr>storageCalls := storageCalls p @ [GetItem REGISTERED_EMAIL_KEY]\<rparr>"

text \<open>The page once the session flag has been asked to be written, whatever came of it.\<close>

definition acceptedLog :: "jsstring \<Rightarrow> jsstring \<Rightarrow> page \<Rightarrow> page" where
  "acceptedLog em r p =
     (console_write (ConsoleLog em r True) (afterRead p))
        \<lparr>storageCalls := storageCalls p @
           [GetItem REGISTERED_EMAIL_KEY, SetItem SESSION_FLAG_KEY (js ''true'')]\<rparr>"


fun setItemCalls :: "storage_call list \<Rightarrow> (jsstring \<times> jsstring) list" where
  "setItemCalls [] = []"
| "setItemCalls (GetItem k # cs) = setItemCalls cs"
| "setItemCalls (SetItem k v # cs) = (k, v) # setItemCalls cs"

text \<open>
  A page for the examples: the registered email is stored with quotes and spaces around
  it, and the form holds the two fields and the submit button in a wrapper.
\<close>

definition storedAlice :: jsstring where
  "storedAlice = js ''  '' @ [0x22] @ js ''alice@example.com'' @ [0x22] @ js ''  ''"

definition plainElement :: "nat \<Rightarrow> string \<Rightarrow> string option \<Rightarrow> attrs" where
  "plainElement i t ty =
     \<lparr>nid = i, tagName = t, classList = [], typeAttr = ty, disabled = False, textContent = []\<rparr>"

definition examplePage :: page where
  "examplePage =
     \<lparr>localStorage = [REGISTERED_EMAIL_KEY \<mapsto> storedAlice],
      storageDenied = False,
      quotaExceeded = False,
      storageCalls = [],
      formChildren =
        [Node (plainElement 0 ''input'' (Some ''email'')) [],
         Node (plainElement 1 ''input'' (Some ''password'')) [],
         Node (plainElement 2 ''div'' None) [Node (plainElement 3 ''button'' (Some ''submit'')) []]],
      nextId = 4,
      focused = None,
      dispatched = [],
      timers = [],
      console = [],
      location = js ''/en/sign-in''\<rparr>"

section \<open>Correctness of the matcher\<close>

inductive_simps accepts_Never [simp]: "accepts Never s"
inductive_simps accepts_Empty [simp]: "accepts Empty s"
inductive_simps accepts_Class [simp]: "accepts (Class p) s"
inductive_simps accepts_Cat: "accepts (Cat a b) s"
inductive_simps accepts_Or [simp]: "accepts (Or a b) s"

lemma nullable_accepts: "nullable r \<longleftrightarrow> accepts r []"
  by (induction r) (auto simp: accepts_Cat intro: acc_star0)

lemma star_split:
  assumes "accepts r s" and "r = Star a" and "s = c # w"
  shows "\<exists>u v. w = u @ v \<and> accepts a (c # u) \<and> accepts (Star a) v"
  using assms
proof (induction arbitrary: w rule: accepts.induct)
  case (acc_star1 a' u v)
  show ?case
  proof (cases u)
    case Nil
    with acc_star1 show ?thesis by simp
  next
    case (Cons x xs)
    with acc_star1.prems have "x = c" "w = xs @ v" by simp_all
    with acc_star1.hyps acc_star1.prems Cons show ?thesis by blast
  qed
qed simp_all

lemma accepts_deriv: "accepts (deriv c r) w \<longleftrightarrow> accepts r (c # w)"
proof (induction r arbitrary: w)
  case (Cat a b)
  show ?case
  proof
    assume "accepts (deriv c (Cat a b)) w"
    then consider (l) u v where "w = u @ v" "accepts (deriv c a) u" "accepts b v"
      | (r) "nullable a" "accepts (deriv c b) w"
      by (auto simp: accepts_Cat split: if_splits)
    then show "accepts (Cat a b) (c # w)"
    proof cases
      case l
      then have "accepts a (c # u)" using Cat.IH(1) by simp
      then have "accepts (Cat a b) ((c # u) @ v)" using l(3) by (rule acc_cat)
      then show ?thesis using l(1) by simp
    next
      case r
      then have "accepts a []" "accepts b (c # w)"
        using Cat.IH(2) by (simp_all add: nullable_accepts)
      then have "accepts (Cat a b) ([] @ c # w)" by (rule acc_cat)
      then show ?thesis by simp
    qed
  next
    assume "accepts (Cat a b) (c # w)"
    then obtain u v where uv: "c # w = u @ v" "accepts a u" "accepts b v"
      by (auto simp: accepts_Cat)
    show "accepts (deriv c (Cat a b)) w"
    proof (cases u)
      case Nil
      with uv have "nullable a" "accepts (deriv c b) w"
        using Cat.IH(2) by (simp_all add: nullable_accepts)
      then show ?thesis by simp
    next
      case (Cons x xs)
      with uv have "accepts (deriv c a) xs" "w = xs @ v"
        using Cat.IH(1) by simp_all
      then have "accepts (Cat (deriv c a) b) w" using uv(3) by (auto intro: acc_cat)
      then show ?thesis by simp
    qed
  qed
next
  case (Star a)
  show ?case
  proof
    assume "accepts (deriv c (Star a)) w"
    then obtain u v where uv: "w = u @ v" "accepts (deriv c a) u" "accepts (Star a) v"
      by (auto simp: accepts_Cat)
    then have "accepts a (c # u)" using Star.IH by simp
    then have "accepts (Star a) ((c # u) @ v)" using uv(3) by (rule acc_star1)
    then show "accepts (Star a) (c # w)" using uv(1) by simp
  next
    assume "accepts (Star a) (c # w)"
    then obtain u v where "w = u @ v" "accepts a (c # u)" "accepts (Star a) v"
      using star_split by blast
    then show "accepts (deriv c (Star a)) w"
      using Star.IH by (auto intro: acc_cat)
  qed
qed simp_all

lemma matches_accepts: "matches r s \<longleftrightarrow> accepts r s"
  by (induction s arbitrary: r) (simp_all add: nullable_accepts accepts_deriv)

lemma star_class_all:
  "accepts r s \<Longrightarrow> r = Star (Class p) \<Longrightarrow> \<forall>x\<in>set s. p x"
  by (induction arbitrary: p rule: accepts.induct) auto

lemma accepts_star_class: "accepts (Star (Class p)) s \<longleftrightarrow> (\<forall>x\<in>set s. p x)"
proof
  assume "accepts (Star (Class p)) s"
  then show "\<forall>x\<in>set s. p x" by (rule star_class_all) simp
next
  assume "\<forall>x\<in>set s. p x"
  then show "accepts (Star (Class p)) s"
  proof (induction s)
    case Nil
    show ?case by (rule acc_star0)
  next
    case (Cons x xs)
    then have "accepts (Class p) [x]" "accepts (Star (Class p)) xs" by simp_all
    then have "accepts (Star (Class p)) ([x] @ xs)" by (rule acc_star1)
    then show ?case by simp
  qed
qed

lemma accepts_plus_class: "accepts (plus (Class p)) s \<longleftrightarrow> s \<noteq> [] \<and> (\<forall>x\<in>set s. p x)"
proof -
  have "accepts (Cat (Class p) (Star (Class p))) s \<longleftrightarrow>
          (\<exists>c v. s = [c] @ v \<and> p c \<and> (\<forall>x\<in>set v. p x))"
    unfolding accepts_Cat accepts_star_class
    apply auto
    subgoal for c v by (rule exI[of _ "[c]"]) simp
    done
  then show ?thesis by (cases s) (auto simp: plus_def)
qed

lemma accepts_lit: "accepts (lit c) s \<longleftrightarrow> s = [c]"
  by (auto simp: lit_def)

lemma accepts_emailRegex:
  "accepts emailRegex s \<longleftrightarrow>
     (\<exists>a b c. s = a @ [0x40] @ b @ [0x2E] @ c \<and> a \<noteq> [] \<and> b \<noteq> [] \<and> c \<noteq> [] \<and>
        (\<forall>x\<in>set (a @ b @ c). notSpaceAt x))"
  unfolding emailRegex_def accepts_Cat accepts_plus_class accepts_lit
  by (intro iffI; elim exE conjE; fastforce)

lemma trim_decomp:
  "\<exists>l r. s = l @ trim s @ r \<and> (\<forall>x\<in>set l. isWhiteSpace x) \<and> (\<forall>x\<in>set r. isWhiteSpace x)"
proof -
  let ?t = "dropWhile isWhiteSpace s"
  have 1: "s = takeWhile isWhiteSpace s @ ?t" by simp
  have "?t = rev (rev ?t)" by simp
  also have "\<dots> = rev (takeWhile isWhiteSpace (rev ?t) @ dropWhile isWhiteSpace (rev ?t))"
    by (simp only: takeWhile_dropWhile_id)
  also have "\<dots> = trim s @ rev (takeWhile isWhiteSpace (rev ?t))"
    by (simp only: rev_append trim_def)
  finally have 2: "?t = trim s @ rev (takeWhile isWhiteSpace (rev ?t))" .
  have "s = takeWhile isWhiteSpace s @ trim s @ rev (takeWhile isWhiteSpace (rev ?t))"
    using 1 2 by metis
  moreover have "\<forall>x\<in>set (takeWhile isWhiteSpace s). isWhiteSpace x"
    by (auto dest: set_takeWhileD)
  moreover have "\<forall>x\<in>set (rev (takeWhile isWhiteSpace (rev ?t))). isWhiteSpace x"
    by (auto dest: set_takeWhileD)
  ultimately show ?thesis by blast
qed

lemma isValidEmail_string:
  "isValidEmail (JSString s) \<longleftrightarrow> accepts emailRegex (trim s)"
proof (cases "s = []")
  case True
  then show ?thesis by (auto simp: isValidEmail_def trim_def accepts_emailRegex)
next
  case False
  then show ?thesis by (simp add: isValidEmail_def matches_accepts)
qed

lemma isValidEmail_nonstring: "typeof v \<noteq> ''string'' \<Longrightarrow> \<not> isValidEmail v"
  by (simp add: isValidEmail_def)

lemma at_is_not_space: "\<not> isWhiteSpace 0x40"
  by (simp add: isWhiteSpace_def)

lemma valid_has_one_at:
  assumes "isValidEmail (JSString s)"
  shows "\<exists>u w. s = u @ [0x40] @ w \<and> 0x40 \<notin> set u \<and> 0x40 \<notin> set w \<and> 0x2E \<in> set w"
proof -
  from assms obtain a b c where t: "trim s = a @ [0x40] @ b @ [0x2E] @ c"
    and ok: "\<forall>x\<in>set (a @ b @ c). notSpaceAt x"
    by (auto simp: isValidEmail_string accepts_emailRegex)
  obtain l r where s: "s = l @ trim s @ r" and l: "\<forall>x\<in>set l. isWhiteSpace x"
    and r: "\<forall>x\<in>set r. isWhiteSpace x"
    using trim_decomp by blast
  have "0x40 \<notin> set l" "0x40 \<notin> set r" using l r at_is_not_space by auto
  moreover have "0x40 \<notin> set a" "0x40 \<notin> set b" "0x40 \<notin> set c" "(0x2E::code_unit) \<noteq> 0x40"
    using ok by (auto simp: notSpaceAt_def)
  moreover have "s = (l @ a) @ [0x40] @ (b @ [0x2E] @ c @ r)" using s t by simp
  ultimately show ?thesis
    by (intro exI[of _ "l @ a"] exI[of _ "b @ [0x2E] @ c @ r"]) simp
qed

text \<open>
  C3. \<open>isValidEmail\<close> is false for every value that is not a string and for the empty
  string. For any other string it is true exactly when the trimmed string is one or more
  code units that are neither white space nor \<open>@\<close>, then \<open>@\<close>, then one or more such
  code units, then a dot, then one or more such code units. Hence it is false for a
  string with no \<open>@\<close>, and for a string in which some \<open>@\<close> has no dot after it. It is
  a function of its argument alone: it reads and changes nothing else.
\<close>

theorem isValidEmail_spec:
  "(typeof v \<noteq> ''string'' \<longrightarrow> \<not> isValidEmail v) \<and>
   \<not> isValidEmail (JSString []) \<and>
   (s \<noteq> [] \<longrightarrow>
      isValidEmail (JSString s) =
        (\<exists>a b c. trim s = a @ [0x40] @ b @ [0x2E] @ c \<and> a \<noteq> [] \<and> b \<noteq> [] \<and> c \<noteq> [] \<and>
           (\<forall>x\<in>set (a @ b @ c). \<not> isWhiteSpace x \<and> x \<noteq> 0x40))) \<and>
   (0x40 \<notin> set s \<longrightarrow> \<not> isValidEmail (JSString s)) \<and>
   (s = u @ [0x40] @ w \<and> 0x2E \<notin> set w \<longrightarrow> \<not> isValidEmail (JSString s))"
proof (intro conjI impI)
  show "\<not> isValidEmail (JSString [])" by (simp add: isValidEmail_def)
next
  assume "typeof v \<noteq> ''string''" then show "\<not> isValidEmail v" by (rule isValidEmail_nonstring)
next
  show "isValidEmail (JSString s) =
        (\<exists>a b c. trim s = a @ [0x40] @ b @ [0x2E] @ c \<and> a \<noteq> [] \<and> b \<noteq> [] \<and> c \<noteq> [] \<and>
           (\<forall>x\<in>set (a @ b @ c). \<not> isWhiteSpace x \<and> x \<noteq> 0x40))"
    by (simp add: isValidEmail_string accepts_emailRegex notSpaceAt_def)
next
  assume "0x40 \<notin> set s"
  then show "\<not> isValidEmail (JSString s)" using valid_has_one_at[of s] by auto
next
  assume h: "s = u @ [0x40] @ w \<and> 0x2E \<notin> set w"
  show "\<not> isValidEmail (JSString s)"
  proof
    assume "isValidEmail (JSString s)"
    then obtain u' w' where *: "s = u' @ [0x40] @ w'" "0x40 \<notin> set u'" "0x40 \<notin> set w'" "0x2E \<in> set w'"
      using valid_has_one_at by blast
    with h have "u' @ 0x40 # w' = u @ 0x40 # w" by simp
    with * have "w' = w" by (simp add: append_Cons_eq_iff)
    with * h show False by simp
  qed
qed


theorem isValidEmail_spec_witness:
  "typeof JSNull \<noteq> ''string'' \<and> \<not> isValidEmail JSNull \<and>
   js ''a@b.c'' \<noteq> [] \<and> isValidEmail (JSString (js ''a@b.c'')) \<and>
   0x40 \<notin> set (js ''ab.c'') \<and> \<not> isValidEmail (JSString (js ''ab.c'')) \<and>
   js ''a@bc'' = js ''a'' @ [0x40] @ js ''bc'' \<and> 0x2E \<notin> set (js ''bc'') \<and>
   \<not> isValidEmail (JSString (js ''a@bc''))"
proof -
  have split: "trim (js ''a@b.c'') = js ''a'' @ [0x40] @ js ''b'' @ [0x2E] @ js ''c'' \<and>
      js ''a'' \<noteq> [] \<and> js ''b'' \<noteq> [] \<and> js ''c'' \<noteq> [] \<and>
      (\<forall>x\<in>set (js ''a'' @ js ''b'' @ js ''c''). \<not> isWhiteSpace x \<and> x \<noteq> 0x40)"
    by (simp add: js_def trim_def isWhiteSpace_def)
  have nonempty: "js ''a@b.c'' \<noteq> []" by (simp add: js_def)
  have pos: "isValidEmail (JSString (js ''a@b.c''))"
    using isValidEmail_spec [of JSNull "js ''a@b.c''" "[]" "[]"] split nonempty
    by blast
  have null: "typeof JSNull \<noteq> ''string''" by simp
  have noat: "0x40 \<notin> set (js ''ab.c'')" by (simp add: js_def)
  have nodot: "js ''a@bc'' = js ''a'' @ [0x40] @ js ''bc'' \<and> 0x2E \<notin> set (js ''bc'')"
    by (simp add: js_def)
  have neg0: "\<not> isValidEmail JSNull"
    using isValidEmail_spec [of JSNull "js ''ab.c''" "[]" "[]"] null by blast
  have neg1: "\<not> isValidEmail (JSString (js ''ab.c''))"
    using isValidEmail_spec [of JSNull "js ''ab.c''" "[]" "[]"] noat by blast
  have neg2: "\<not> isValidEmail (JSString (js ''a@bc''))"
    using isValidEmail_spec [of JSNull "js ''a@bc''" "js ''a''" "js ''bc''"] nodot by blast
  show ?thesis using null nonempty pos noat nodot neg0 neg1 neg2 by blast
qed

section \<open>The registration path\<close>

lemma contains_iff: "contains s pat \<longleftrightarrow> (\<exists>u v. s = u @ pat @ v)"
proof (induction s)
  case Nil
  show ?case by auto
next
  case (Cons c cs)
  show ?case
  proof
    assume "contains (c # cs) pat"
    then consider "take (length pat) (c # cs) = pat" | "contains cs pat" by auto
    then show "\<exists>u v. c # cs = u @ pat @ v"
    proof cases
      case 1
      then have "c # cs = [] @ pat @ drop (length pat) (c # cs)"
        by (metis append_Nil append_take_drop_id)
      then show ?thesis by blast
    next
      case 2
      then obtain u v where "cs = u @ pat @ v" using Cons.IH by blast
      then have "c # cs = (c # u) @ pat @ v" by simp
      then show ?thesis by blast
    qed
  next
    assume "\<exists>u v. c # cs = u @ pat @ v"
    then obtain u v where uv: "c # cs = u @ pat @ v" by blast
    show "contains (c # cs) pat"
    proof (cases u)
      case Nil
      with uv have "take (length pat) (c # cs) = pat" by simp
      then show ?thesis by simp
    next
      case (Cons x xs)
      with uv have "cs = xs @ pat @ v" by simp
      then show ?thesis using Cons.IH by auto
    qed
  qed
qed

lemma endsWith_iff: "endsWith s suf \<longleftrightarrow> (\<exists>u. s = u @ suf)"
proof
  assume "endsWith s suf"
  then have "s = take (length s - length suf) s @ suf"
    by (metis append_take_drop_id endsWith_def)
  then show "\<exists>u. s = u @ suf" ..
next
  assume "\<exists>u. s = u @ suf"
  then show "endsWith s suf" by (auto simp: endsWith_def)
qed

lemma replace_first_absent: "\<not> contains s pat \<Longrightarrow> replace_first pat rep s = s"
  by (induction s) auto

lemma replace_first_at:
  "(\<And>u' v'. u @ pat @ v = u' @ pat @ v' \<Longrightarrow> length u \<le> length u') \<Longrightarrow>
   replace_first pat rep (u @ pat @ v) = u @ rep @ v"
proof (induction u)
  case Nil
  show ?case
  proof (cases "pat @ v")
    case Nil
    then show ?thesis by simp
  next
    case (Cons a l)
    then have "take (length pat) (a # l) = pat" "drop (length pat) (a # l) = v"
      by (metis append_eq_conv_conj)+
    then show ?thesis using Cons by simp
  qed
next
  case (Cons x xs)
  have "take (length pat) (x # xs @ pat @ v) \<noteq> pat"
  proof
    assume "take (length pat) (x # xs @ pat @ v) = pat"
    then have "(x # xs) @ pat @ v = [] @ pat @ drop (length pat) (x # xs @ pat @ v)"
      by (metis append_Cons append_Nil append_take_drop_id)
    from Cons.prems[OF this] show False by simp
  qed
  moreover have "replace_first pat rep (xs @ pat @ v) = xs @ rep @ v"
  proof (rule Cons.IH)
    fix u' v' assume "xs @ pat @ v = u' @ pat @ v'"
    then have "(x # xs) @ pat @ v = (x # u') @ pat @ v'" by simp
    from Cons.prems[OF this] show "length xs \<le> length u'" by simp
  qed
  ultimately show ?case by simp
qed

lemma accepts_lits: "accepts (lits w) s \<longleftrightarrow> s = w"
  by (induction w arbitrary: s) (auto simp: accepts_Cat lit_def)

lemma matches_signInRegex:
  "matches signInRegex t \<longleftrightarrow> t = js ''/sign-in'' \<or> t = js ''/sign-in.html''"
proof -
  have "js ''/sign-in.html'' = js ''/sign-in'' @ js ''.html''" by (simp add: js_def)
  then show ?thesis
    by (auto simp: matches_accepts signInRegex_def accepts_Cat accepts_lits opt_def)
qed

lemma endsWith_Cons: "endsWith (c # cs) suf \<longleftrightarrow> c # cs = suf \<or> endsWith cs suf"
  unfolding endsWith_iff by (auto simp: Cons_eq_append_conv)

lemma dropEnd_Cons:
  "endsWith cs suf \<Longrightarrow> dropEnd (length suf) (c # cs) = c # dropEnd (length suf) cs"
  by (auto simp: endsWith_def dropEnd_def Suc_diff_le)

lemma dropEnd_self: "dropEnd (length s) s = []"
  by (simp add: dropEnd_def)

lemma replace_regex_end_signIn:
  "replace_regex_end signInRegex rep s =
     (if endsWith s (js ''/sign-in'') then dropEnd 8 s @ rep
      else if endsWith s (js ''/sign-in.html'') then dropEnd 13 s @ rep
      else s)"
proof (induction s)
  case Nil
  show ?case by (simp add: signInRegex_def lit_def opt_def endsWith_def js_def)
next
  case (Cons c cs)
  have l8: "length (js ''/sign-in'') = 8" and l13: "length (js ''/sign-in.html'') = 13"
    by (simp_all add: js_def)
  have excl: "\<not> (endsWith t (js ''/sign-in'') \<and> endsWith t (js ''/sign-in.html''))" for t
    unfolding endsWith_iff by (auto simp: js_def append_eq_append_conv2 Cons_eq_append_conv append_eq_Cons_conv)
  show ?case
  proof (cases "matches signInRegex (c # cs)")
    case True
    then consider "c # cs = js ''/sign-in''" | "c # cs = js ''/sign-in.html''"
      by (auto simp: matches_signInRegex simp del: matches.simps)
    then show ?thesis
    proof cases
      case 1
      then have "endsWith (c # cs) (js ''/sign-in'')" by (simp add: endsWith_iff)
      moreover have "dropEnd 8 (c # cs) = []" using 1 dropEnd_self l8 by metis
      ultimately show ?thesis using True by simp
    next
      case 2
      then have e: "endsWith (c # cs) (js ''/sign-in.html'')" by (simp add: endsWith_iff)
      then have "\<not> endsWith (c # cs) (js ''/sign-in'')" using excl by blast
      moreover have "dropEnd 13 (c # cs) = []" using 2 dropEnd_self l13 by metis
      ultimately show ?thesis using True e by simp
    qed
  next
    case False
    then have ne: "c # cs \<noteq> js ''/sign-in''" "c # cs \<noteq> js ''/sign-in.html''"
      by (auto simp: matches_signInRegex simp del: matches.simps)
    then have e: "endsWith (c # cs) (js ''/sign-in'') = endsWith cs (js ''/sign-in'')"
      "endsWith (c # cs) (js ''/sign-in.html'') = endsWith cs (js ''/sign-in.html'')"
      by (simp_all add: endsWith_Cons)
    show ?thesis
      using False Cons.IH dropEnd_Cons[of cs "js ''/sign-in''" c]
        dropEnd_Cons[of cs "js ''/sign-in.html''" c]
      by (simp add: e l8 l13)
  qed
qed

lemma replace_first_trailing:
  assumes "pat \<noteq> []"
  shows "\<not> contains (butlast s) pat \<Longrightarrow>
     replace_first pat rep s = (if endsWith s pat then dropEnd (length pat) s @ rep else s)"
proof (induction s)
  case Nil
  then show ?case using assms by (simp add: endsWith_def)
next
  case (Cons c cs)
  show ?case
  proof (cases "take (length pat) (c # cs) = pat")
    case True
    define r where "r = drop (length pat) (c # cs)"
    have s: "c # cs = pat @ r" unfolding r_def using True by (metis append_take_drop_id)
    have "r = []"
    proof (rule ccontr)
      assume "r \<noteq> []"
      then have "butlast (c # cs) = [] @ pat @ butlast r" using s by (simp add: butlast_append)
      then have "contains (butlast (c # cs)) pat" unfolding contains_iff by blast
      with Cons.prems show False by simp
    qed
    with s have eq: "c # cs = pat" by simp
    then have "endsWith (c # cs) pat" "dropEnd (length pat) (c # cs) = []"
      by (simp_all add: endsWith_iff dropEnd_def)
    moreover have "replace_first pat rep (c # cs) = rep @ drop (length pat) (c # cs)"
      using True by simp
    then have "replace_first pat rep (c # cs) = rep" unfolding eq by simp
    ultimately show ?thesis by simp
  next
    case False
    then have ne: "c # cs \<noteq> pat" by auto
    have step: "replace_first pat rep (c # cs) = c # replace_first pat rep cs"
      using False by simp
    show ?thesis
    proof (cases "cs = []")
      case True
      then show ?thesis using step ne assms by (simp add: endsWith_Cons) (simp add: endsWith_def)
    next
      case nonempty: False
      then have "butlast (c # cs) = c # butlast cs" by simp
      with Cons.prems have "\<not> contains (butlast cs) pat" by simp
      then have "replace_first pat rep cs =
          (if endsWith cs pat then dropEnd (length pat) cs @ rep else cs)"
        by (rule Cons.IH)
      then show ?thesis using step ne dropEnd_Cons[of cs pat c] by (simp add: endsWith_Cons)
    qed
  qed
qed

text \<open>
  C6, as the code has it. In the authoring environment the first occurrence of
  \<open>/sign-in.html\<close> in the path, wherever it stands, is replaced with
  \<open>/registration.html\<close>, and a path without it is returned unchanged; when
  \<open>/sign-in.html\<close> occurs nowhere before the end of the path, this is the replacement
  of the trailing segment. Otherwise a trailing \<open>/sign-in\<close> or \<open>/sign-in.html\<close>
  is replaced with \<open>/registration\<close>. \<open>/en/sign-in\<close> gives \<open>/en/registration\<close>
  on the published site and \<open>/en/sign-in.html\<close> gives \<open>/en/registration.html\<close> in
  the authoring environment.
\<close>

theorem registrationPath_spec:
  "(\<not> contains p (js ''/sign-in.html'') \<longrightarrow> registrationPath p True = p) \<and>
   (p = u @ js ''/sign-in.html'' @ v \<and>
    (\<forall>u' v'. p = u' @ js ''/sign-in.html'' @ v' \<longrightarrow> length u \<le> length u') \<longrightarrow>
      registrationPath p True = u @ js ''/registration.html'' @ v) \<and>
   (\<not> contains (butlast p) (js ''/sign-in.html'') \<longrightarrow>
      registrationPath p True = composeRegistrationPath p True) \<and>
   registrationPath p False = composeRegistrationPath p False \<and>
   registrationPath (js ''/en/sign-in'') False = js ''/en/registration'' \<and>
   registrationPath (js ''/en/sign-in.html'') True = js ''/en/registration.html''"
proof (intro conjI impI)
  assume "\<not> contains p (js ''/sign-in.html'')"
  then show "registrationPath p True = p"
    by (simp add: registrationPath_def replace_first_absent)
next
  assume h: "p = u @ js ''/sign-in.html'' @ v \<and>
    (\<forall>u' v'. p = u' @ js ''/sign-in.html'' @ v' \<longrightarrow> length u \<le> length u')"
  then have "replace_first (js ''/sign-in.html'') (js ''/registration.html'')
      (u @ js ''/sign-in.html'' @ v) = u @ js ''/registration.html'' @ v"
    by (intro replace_first_at) blast
  with h show "registrationPath p True = u @ js ''/registration.html'' @ v"
    by (simp add: registrationPath_def)
next
  assume h: "\<not> contains (butlast p) (js ''/sign-in.html'')"
  have "js ''/sign-in.html'' \<noteq> []" "length (js ''/sign-in.html'') = 13" by (simp_all add: js_def)
  with replace_first_trailing[OF this(1) h, of "js ''/registration.html''"]
  show "registrationPath p True = composeRegistrationPath p True"
    by (simp add: registrationPath_def composeRegistrationPath_def)
next
  show "registrationPath p False = composeRegistrationPath p False"
    by (simp add: registrationPath_def composeRegistrationPath_def replace_regex_end_signIn)
next
  show "registrationPath (js ''/en/sign-in'') False = js ''/en/registration''"
    by (simp add: registrationPath_def signInRegex_def js_def lit_def opt_def)
next
  show "registrationPath (js ''/en/sign-in.html'') True = js ''/en/registration.html''"
    by (simp add: registrationPath_def js_def)
qed

text \<open>
  C6 as stated fails in the authoring environment: in
  \<open>/sign-in.html/a/sign-in.html\<close> the code replaces the first occurrence and leaves
  the trailing segment as it is.
\<close>

theorem registrationPath_counterexample:
  "composeRegistrationPath (js ''/sign-in.html/a/sign-in.html'') True
     = js ''/sign-in.html/a/registration.html'' \<and>
   registrationPath (js ''/sign-in.html/a/sign-in.html'') True
     = js ''/registration.html/a/sign-in.html'' \<and>
   registrationPath (js ''/sign-in.html/a/sign-in.html'') True
     \<noteq> composeRegistrationPath (js ''/sign-in.html/a/sign-in.html'') True"
  by (simp add: registrationPath_def composeRegistrationPath_def endsWith_def dropEnd_def js_def)

theorem registrationPath_spec_witness:
  "\<not> contains (js ''/en/home'') (js ''/sign-in.html'') \<and>
   registrationPath (js ''/en/home'') True = js ''/en/home'' \<and>
   registrationPath (js ''/sign-in.html/a/sign-in.html'') True
     = js ''/registration.html/a/sign-in.html'' \<and>
   \<not> contains (butlast (js ''/en/sign-in.html'')) (js ''/sign-in.html'') \<and>
   registrationPath (js ''/en/sign-in.html'') True
     = composeRegistrationPath (js ''/en/sign-in.html'') True"
proof -
  have a: "\<not> contains (js ''/en/home'') (js ''/sign-in.html'')" by (simp add: js_def)
  have b: "js ''/sign-in.html/a/sign-in.html'' = [] @ js ''/sign-in.html'' @ js ''/a/sign-in.html'' \<and>
     (\<forall>u' v'. js ''/sign-in.html/a/sign-in.html'' = u' @ js ''/sign-in.html'' @ v'
         \<longrightarrow> length ([]::jsstring) \<le> length u')"
    by (simp add: js_def)
  have c: "\<not> contains (butlast (js ''/en/sign-in.html'')) (js ''/sign-in.html'')"
    by (simp add: js_def)
  have "registrationPath (js ''/en/home'') True = js ''/en/home''"
    using registrationPath_spec [of "js ''/en/home''" "[]" "[]"] a by blast
  moreover have "registrationPath (js ''/sign-in.html/a/sign-in.html'') True
      = [] @ js ''/registration.html'' @ js ''/a/sign-in.html''"
    using registrationPath_spec [of "js ''/sign-in.html/a/sign-in.html''" "[]" "js ''/a/sign-in.html''"] b
    by blast
  moreover have "registrationPath (js ''/en/sign-in.html'') True
     = composeRegistrationPath (js ''/en/sign-in.html'') True"
    using registrationPath_spec [of "js ''/en/sign-in.html''" "[]" "[]"] c by blast
  ultimately show ?thesis using a c by (simp add: js_def)
qed

lemma contains_mono:
  "contains s (a @ b) \<Longrightarrow> contains s a"
  unfolding contains_iff by (metis append.assoc)

text \<open>
  C10. In both environments a path in which \<open>/sign-in\<close> does not occur is returned
  unchanged.
\<close>

theorem registrationPath_identity:
  "\<not> contains p (js ''/sign-in'') \<Longrightarrow> registrationPath p isAuthor = p"
proof -
  assume h: "\<not> contains p (js ''/sign-in'')"
  have split: "js ''/sign-in.html'' = js ''/sign-in'' @ js ''.html''" by (simp add: js_def)
  have 1: "\<not> contains p (js ''/sign-in.html'')"
    using h contains_mono[of p "js ''/sign-in''" "js ''.html''"] split by auto
  have 2: "\<not> endsWith p (js ''/sign-in'')" "\<not> endsWith p (js ''/sign-in.html'')"
    using h 1 unfolding endsWith_iff contains_iff by (metis append_Nil2)+
  show ?thesis
    using 1 2 by (simp add: registrationPath_def replace_first_absent replace_regex_end_signIn)
qed

theorem registrationPath_identity_witness:
  "\<not> contains (js ''/en/home'') (js ''/sign-in'') \<and>
   registrationPath (js ''/en/home'') True = js ''/en/home'' \<and>
   registrationPath (js ''/en/home'') False = js ''/en/home''"
proof -
  have h: "\<not> contains (js ''/en/home'') (js ''/sign-in'')" by (simp add: js_def)
  show ?thesis
    using h registrationPath_identity [OF h, of True] registrationPath_identity [OF h, of False]
    by blast
qed


section \<open>The form after a message\<close>

lemma count_remove_same: "count_matching P (remove_matching P f) = 0"
  by (induction P f rule: remove_matching.induct) simp_all

lemma count_remove_le: "count_matching Q (remove_matching P f) \<le> count_matching Q f"
  by (induction P f rule: remove_matching.induct) (simp_all add: add_mono trans_le_add2)

lemma count_append: "count_matching Q (f @ g) = count_matching Q f + count_matching Q g"
  by (induction Q f rule: count_matching.induct) simp_all

lemma count_insertBefore:
  "querySelector P f \<noteq> None \<Longrightarrow>
   count_matching Q (insertBefore P (Node e es) f) =
     count_matching Q f + count_matching Q [Node e es]"
  by (induction P "Node e es" f rule: insertBefore.induct) (auto split: option.splits if_splits)

lemma count_disableFirst:
  "count_matching is_form_message (disableFirst P f) = count_matching is_form_message f"
  by (induction P f rule: disableFirst.induct) (simp_all add: is_form_message_def)

lemma query_none_iff: "querySelector Q f = None \<longleftrightarrow> count_matching Q f = 0"
  by (induction Q f rule: querySelector.induct) (auto split: option.splits)

lemma query_append_new:
  "count_matching Q f = 0 \<Longrightarrow> Q a \<Longrightarrow> querySelector Q (f @ [Node a ks]) = Some (Node a ks)"
proof (induction Q f rule: querySelector.induct)
  case (2 P b ls ns)
  then have "\<not> P b" "querySelector P ls = None" "count_matching P ns = 0"
    by (auto simp: query_none_iff split: if_splits)
  with 2 show ?case by simp
qed simp

lemma query_insertBefore_new:
  "count_matching Q f = 0 \<Longrightarrow> Q e \<Longrightarrow> querySelector P f \<noteq> None \<Longrightarrow>
   querySelector Q (insertBefore P (Node e es) f) = Some (Node e es)"
proof (induction P "Node e es" f rule: insertBefore.induct)
  case (2 P a ks ns)
  have nq0: "\<not> Q a" "count_matching Q ks = 0" "count_matching Q ns = 0"
    using "2.prems"(1) by (auto split: if_splits)
  then have nq: "\<not> Q a" "count_matching Q ks = 0" "count_matching Q ns = 0"
    "querySelector Q ks = None" "querySelector Q ns = None"
    by (simp_all add: query_none_iff)
  show ?case
  proof (cases "P a")
    case True
    then show ?thesis using "2.prems" by simp
  next
    case np: False
    show ?thesis
    proof (cases "querySelector P ks \<noteq> None")
      case True
      then have "querySelector Q (insertBefore P (Node e es) ks) = Some (Node e es)"
        using 2 np nq by simp
      then show ?thesis using np True nq by simp
    next
      case False
      then have "querySelector P ns \<noteq> None" using "2.prems"(3) np by simp
      then have "querySelector Q (insertBefore P (Node e es) ns) = Some (Node e es)"
        using 2 np nq False by simp
      then show ?thesis using np False nq by simp
    qed
  qed
qed simp

lemma query_disableFirst_other:
  "\<not> P e \<Longrightarrow> Q e \<Longrightarrow> count_matching Q f = 0 \<Longrightarrow> querySelector P f \<noteq> None \<Longrightarrow>
   querySelector Q (disableFirst P (insertBefore P (Node e []) f)) = Some (Node e [])"
proof (induction P "Node e []" f rule: insertBefore.induct)
  case (2 P a ks ns)
  have nq0: "\<not> Q a" "count_matching Q ks = 0" "count_matching Q ns = 0"
    using "2.prems"(3) by (auto split: if_splits)
  then have nq: "\<not> Q a" "count_matching Q ks = 0" "count_matching Q ns = 0"
    "querySelector Q ks = None" "querySelector Q ns = None"
    by (simp_all add: query_none_iff)
  show ?case
  proof (cases "P a")
    case True
    then show ?thesis using "2.prems" by simp
  next
    case np: False
    show ?thesis
    proof (cases "querySelector P ks \<noteq> None")
      case True
      then have ih: "querySelector Q (disableFirst P (insertBefore P (Node e []) ks)) = Some (Node e [])"
        using 2 np nq by simp
      have "querySelector P (insertBefore P (Node e []) ks) \<noteq> None"
        using True count_insertBefore[of P ks P e "[]"] by (simp add: query_none_iff)
      then show ?thesis using np True nq ih by simp
    next
      case False
      then have "querySelector P ns \<noteq> None" using "2.prems"(4) np by simp
      then have ih: "querySelector Q (disableFirst P (insertBefore P (Node e []) ns)) = Some (Node e [])"
        using 2 np nq False by simp
      then show ?thesis using np False nq by simp
    qed
  qed
qed simp

lemma previousSibling_insertBefore:
  "\<not> P e \<Longrightarrow> querySelector P f \<noteq> None \<Longrightarrow>
   previousSibling P prev (insertBefore P (Node e []) f) = Some (Node e [])"
proof (induction P "Node e []" f arbitrary: prev rule: insertBefore.induct)
  case (2 P a ks ns)
  show ?case
  proof (cases "P a")
    case True
    then show ?thesis using "2.prems" by simp
  next
    case np: False
    show ?thesis
    proof (cases "querySelector P ks \<noteq> None")
      case True
      have "querySelector P (insertBefore P (Node e []) ks) \<noteq> None"
        using True count_insertBefore[of P ks P e "[]"] by (simp add: query_none_iff)
      then show ?thesis using 2 np True by simp
    next
      case False
      then have "querySelector P ns \<noteq> None" using "2.prems"(2) np by simp
      then show ?thesis using 2 np False by simp
    qed
  qed
qed simp

lemma count_disableFirst_self:
  "(\<And>a. P (a\<lparr>disabled := True\<rparr>) = P a) \<Longrightarrow>
   count_matching P (disableFirst P g) = count_matching P g"
  by (induction P g rule: disableFirst.induct) simp_all

lemma previousSibling_disableFirst:
  "\<not> P e \<Longrightarrow> querySelector P f \<noteq> None \<Longrightarrow> (\<And>a. P (a\<lparr>disabled := True\<rparr>) = P a) \<Longrightarrow>
   previousSibling P prev (disableFirst P (insertBefore P (Node e []) f)) = Some (Node e [])"
proof (induction P "Node e []" f arbitrary: prev rule: insertBefore.induct)
  case (2 P a ks ns)
  show ?case
  proof (cases "P a")
    case True
    then show ?thesis using "2.prems" by simp
  next
    case np: False
    show ?thesis
    proof (cases "querySelector P ks \<noteq> None")
      case True
      have q: "querySelector P (insertBefore P (Node e []) ks) \<noteq> None"
        using True count_insertBefore[of P ks P e "[]"] by (simp add: query_none_iff)
      have "count_matching P (disableFirst P g) = count_matching P g" for g
        using "2.prems"(3) by (rule count_disableFirst_self)
      then have "querySelector P (disableFirst P (insertBefore P (Node e []) ks)) \<noteq> None"
        using q by (simp add: query_none_iff)
      then show ?thesis using 2 np True q by simp
    next
      case False
      then have "querySelector P ns \<noteq> None" using "2.prems"(2) np by simp
      then show ?thesis using 2 np False by simp
    qed
  qed
qed simp

section \<open>Dates as strings\<close>

declare yearFromDays.simps [simp del]

lemma unat_digit: "unat (digit n) = 48 + n mod 10"
proof -
  have "48 + n mod 10 < 2 ^ 16" by (simp add: less_le_trans[of _ 58] add.commute)
  then show ?thesis by (simp add: digit_def unat_of_nat del: of_nat_add)
qed

lemma accepts_between_digit:
  "accepts (between a b) [digit n] \<longleftrightarrow> unat a \<le> 48 + n mod 10 \<and> 48 + n mod 10 \<le> unat b"
  by (simp add: between_def word_le_nat_alt unat_digit)

lemma accepts_lit_digit: "accepts (lit a) [digit n] \<longleftrightarrow> unat a = 48 + n mod 10"
proof -
  have "accepts (lit a) [digit n] \<longleftrightarrow> digit n = a" by (auto simp: lit_def)
  then show ?thesis by (auto simp: word_unat_eq_iff unat_digit)
qed

lemma accepts_digitR: "accepts digitR [digit n]"
  by (simp add: digitR_def accepts_between_digit)

lemma acc_cons: "accepts r [a] \<Longrightarrow> accepts s w \<Longrightarrow> accepts (Cat r s) (a # w)"
  using acc_cat[of r "[a]" s w] by simp

lemma accepts_sixty: "n < 60 \<Longrightarrow> accepts sixtyR (pad2 n)"
proof -
  assume "n < 60"
  then have "n div 10 mod 10 \<le> 5" by simp
  then show ?thesis
    unfolding sixtyR_def pad2_def
    by (intro acc_cons accepts_digitR) (simp add: accepts_between_digit)
qed

lemma tens_digit: "10 * q \<le> n \<Longrightarrow> n < 10 * Suc q \<Longrightarrow> q < 10 \<Longrightarrow> n div 10 mod 10 = q"
proof -
  assume "10 * q \<le> n" "n < 10 * Suc q" "q < 10"
  then have "n div 10 = q" by (intro div_nat_eqI) (simp_all add: mult.commute)
  then show ?thesis using \<open>q < 10\<close> by simp
qed

lemma accepts_hour: "n < 24 \<Longrightarrow> accepts hourR (pad2 n)"
proof (cases "n < 20")
  case True
  then have "n div 10 mod 10 \<le> 1" by simp
  then have "accepts (Cat (between 0x30 0x31) digitR) (pad2 n)"
    unfolding pad2_def by (intro acc_cons accepts_digitR) (simp add: accepts_between_digit)
  then show ?thesis by (simp add: hourR_def)
next
  case False
  assume "n < 24"
  with False have "n = 20 \<or> n = 21 \<or> n = 22 \<or> n = 23" by linarith
  then have "n div 10 mod 10 = 2" "n mod 10 \<le> 3" by auto
  then have "accepts (Cat (lit 0x32) (between 0x30 0x33)) (pad2 n)"
    unfolding pad2_def by (intro acc_cons) (simp_all add: accepts_between_digit accepts_lit_digit)
  then show ?thesis by (simp add: hourR_def)
qed

lemma accepts_month: "1 \<le> n \<Longrightarrow> n \<le> 12 \<Longrightarrow> accepts monthR (pad2 n)"
proof (cases "n < 10")
  case True
  assume "1 \<le> n"
  with True have "n div 10 mod 10 = 0" "1 \<le> n mod 10" by simp_all
  then have "accepts (Cat (lit 0x30) (between 0x31 0x39)) (pad2 n)"
    unfolding pad2_def by (intro acc_cons) (simp_all add: accepts_between_digit accepts_lit_digit)
  then show ?thesis by (simp add: monthR_def)
next
  case False
  assume "n \<le> 12"
  with False have "n = 10 \<or> n = 11 \<or> n = 12" by linarith
  then have "n div 10 mod 10 = 1" "n mod 10 \<le> 2" by auto
  then have "accepts (Cat (lit 0x31) (between 0x30 0x32)) (pad2 n)"
    unfolding pad2_def by (intro acc_cons) (simp_all add: accepts_between_digit accepts_lit_digit)
  then show ?thesis by (simp add: monthR_def)
qed

lemma accepts_date: "1 \<le> n \<Longrightarrow> n \<le> 31 \<Longrightarrow> accepts dateR (pad2 n)"
proof -
  assume n: "1 \<le> n" "n \<le> 31"
  consider "n < 10" | "10 \<le> n" "n < 20" | "20 \<le> n" "n < 30" | "30 \<le> n" by linarith
  then show ?thesis
  proof cases
    case 1
    with n have "n div 10 mod 10 = 0" "1 \<le> n mod 10" by simp_all
    then have "accepts (Cat (lit 0x30) (between 0x31 0x39)) (pad2 n)"
      unfolding pad2_def by (intro acc_cons) (simp_all add: accepts_between_digit accepts_lit_digit)
    then show ?thesis by (simp add: dateR_def)
  next
    case 2
    then have "n div 10 mod 10 = 1" by (intro tens_digit) simp_all
    then have "accepts (Cat (between 0x31 0x32) digitR) (pad2 n)"
      unfolding pad2_def by (intro acc_cons accepts_digitR) (simp add: accepts_between_digit)
    then show ?thesis by (simp add: dateR_def)
  next
    case 3
    then have "n div 10 mod 10 = 2" by (intro tens_digit) simp_all
    then have "accepts (Cat (between 0x31 0x32) digitR) (pad2 n)"
      unfolding pad2_def by (intro acc_cons accepts_digitR) (simp add: accepts_between_digit)
    then show ?thesis by (simp add: dateR_def)
  next
    case 4
    with n have "n = 30 \<or> n = 31" by linarith
    then have "n div 10 mod 10 = 3" "n mod 10 \<le> 1" by auto
    then have "accepts (Cat (lit 0x33) (between 0x30 0x31)) (pad2 n)"
      unfolding pad2_def by (intro acc_cons) (simp_all add: accepts_between_digit accepts_lit_digit)
    then show ?thesis by (simp add: dateR_def)
  qed
qed

lemma accepts_year: "accepts yearR (yearString y)"
proof (cases "0 \<le> y \<and> y \<le> 9999")
  case True
  have "accepts (Cat digitR (Cat digitR (Cat digitR digitR))) (pad4 (nat y))"
    unfolding pad4_def by (intro acc_cons accepts_digitR)
  then show ?thesis using True by (simp add: yearR_def yearString_def)
next
  case False
  have s: "accepts (Or (lit 0x2B) (lit 0x2D)) (if y < 0 then js ''-'' else js ''+'')"
    by (simp add: lit_def js_def)
  have "accepts (Cat digitR (Cat digitR (Cat digitR (Cat digitR (Cat digitR digitR)))))
      (pad6 (nat \<bar>y\<bar>))"
    unfolding pad6_def by (intro acc_cons accepts_digitR)
  with s have "accepts (Cat (Or (lit 0x2B) (lit 0x2D))
      (Cat digitR (Cat digitR (Cat digitR (Cat digitR (Cat digitR digitR))))))
      ((if y < 0 then js ''-'' else js ''+'') @ pad6 (nat \<bar>y\<bar>))"
    by (rule acc_cat)
  moreover from False
  have "yearString y = (if y < 0 then js ''-'' else js ''+'') @ pad6 (nat \<bar>y\<bar>)"
    unfolding yearString_def by (rule if_not_P)
  ultimately show ?thesis unfolding yearR_def by (simp only: acc_or2)
qed

lemma yearFromDays_within: "yearFromDays y d = (y', d') \<Longrightarrow> d' < daysInYear y'"
  by (induction y d rule: yearFromDays.induct)
     (subst (asm) (2) yearFromDays.simps, auto split: if_splits)

lemma monthFromDay_range:
  "d < sum_list ls \<Longrightarrow> (\<forall>l\<in>set ls. l \<le> 31) \<Longrightarrow> monthFromDay ls m d = (m', d') \<Longrightarrow>
   m \<le> m' \<and> m' < m + length ls \<and> 1 \<le> d' \<and> d' \<le> 31"
proof (induction ls arbitrary: m d)
  case Nil
  then show ?case by simp
next
  case (Cons l ls)
  show ?case
  proof (cases "d < l")
    case True
    then show ?thesis using Cons.prems by auto
  next
    case False
    then have "monthFromDay ls (m + 1) (d - l) = (m', d')" "d - l < sum_list ls"
      using Cons.prems by auto
    from Cons.IH[OF this(2) _ this(1)] Cons.prems(2) show ?thesis by auto
  qed
qed

lemma sum_monthLengths: "sum_list (monthLengths y) = daysInYear y"
  by (simp add: monthLengths_def daysInYear_def)

lemma toISOString_iso: "matches isoRegex (toISOString t)"
proof -
  define day where "day = t div 86400000"
  define ms where "ms = nat (t mod 86400000)"
  obtain y doy where yd: "yearFromDays (1970 + 400 * (day div 146097)) (nat (day mod 146097)) = (y, doy)"
    by (cases "yearFromDays (1970 + 400 * (day div 146097)) (nat (day mod 146097))")
  obtain m d where md: "monthFromDay (monthLengths y) 1 doy = (m, d)"
    by (cases "monthFromDay (monthLengths y) 1 doy")
  have "doy < sum_list (monthLengths y)"
    using yearFromDays_within[OF yd] by (simp add: sum_monthLengths)
  moreover have "\<forall>l\<in>set (monthLengths y). l \<le> 31" by (simp add: monthLengths_def)
  ultimately have r: "1 \<le> m" "m \<le> 12" "1 \<le> d" "d \<le> 31"
    using monthFromDay_range[OF _ _ md] by (auto simp: monthLengths_def)
  have "ms < 86400000" by (simp add: ms_def nat_less_iff)
  then have h: "ms div 3600000 < 24" by simp
  have str: "toISOString t =
      yearString y @ js ''-'' @ pad2 m @ js ''-'' @ pad2 d @ js ''T'' @
      pad2 (ms div 3600000) @ js '':'' @ pad2 (ms div 60000 mod 60) @ js '':'' @
      pad2 (ms div 1000 mod 60) @ js ''.'' @ pad3 (ms mod 1000) @ js ''Z''"
    using yd md by (simp add: toISOString_def day_def ms_def Let_def)
  have l: "accepts (lit 0x2D) (js ''-'')" "accepts (lit 0x54) (js ''T'')"
    "accepts (lit 0x3A) (js '':'')" "accepts (lit 0x2E) (js ''.'')" "accepts (lit 0x5A) (js ''Z'')"
    by (simp_all add: lit_def js_def)
  have p3: "accepts (Cat digitR (Cat digitR digitR)) (pad3 (ms mod 1000))"
    unfolding pad3_def by (intro acc_cons accepts_digitR)
  have "accepts isoRegex (toISOString t)"
    unfolding str isoRegex_def
    by (intro acc_cat accepts_year accepts_month accepts_date accepts_hour accepts_sixty l p3 r h)
       simp_all
  then show ?thesis by (simp add: matches_accepts)
qed

section \<open>The paths through the listener\<close>

lemma trim_empty_iff: "trim s = [] \<longleftrightarrow> blank s"
proof -
  let ?t = "dropWhile isWhiteSpace s"
  have "trim s = [] \<longleftrightarrow> (\<forall>x\<in>set ?t. isWhiteSpace x)"
    by (simp add: trim_def dropWhile_eq_Nil_conv)
  also have "\<dots> \<longleftrightarrow> ?t = []"
  proof
    assume all: "\<forall>x\<in>set ?t. isWhiteSpace x"
    show "?t = []"
    proof (rule ccontr)
      assume ne: "?t \<noteq> []"
      then have "\<not> isWhiteSpace (hd ?t)" by (rule hd_dropWhile)
      moreover have "hd ?t \<in> set ?t" using ne by simp
      ultimately show False using all by blast
    qed
  next
    assume e: "?t = []"
    show "\<forall>x\<in>set ?t. isWhiteSpace x" unfolding e by simp
  qed
  also have "\<dots> \<longleftrightarrow> blank s"
    by (simp add: dropWhile_eq_Nil_conv blank_def list_all_iff)
  finally show ?thesis .
qed

lemma replace_class_all_delete: "replace_class_all P [] s = filter (\<lambda>c. \<not> P c) s"
  by (induction s) (simp_all add: replace_class_all_def)

lemma cleanRegistered_string: "cleanRegistered (JSString v) = JSString (sanitize v)"
proof -
  have "(\<lambda>c. \<not> asteriskOrQuote c) = (\<lambda>c. c \<noteq> 0x2A \<and> c \<noteq> 0x22 \<and> c \<noteq> 0x27)"
    by (auto simp: asteriskOrQuote_def)
  then show ?thesis
    by (simp add: cleanRegistered_def sanitize_def replace_class_all_delete trim_def)
qed

lemma cleanRegistered_null: "cleanRegistered JSNull = JSNull"
  by (simp add: cleanRegistered_def)

lemma isValidEmail_empty: "\<not> isValidEmail (JSString [])"
  by (simp add: isValidEmail_def)

lemma submit_fields_missing:
  "e = None \<or> pw = None \<Longrightarrow>
   onSubmit lc now e pw p = (FieldsNotFound, showErrorMessage (js ''Form fields not found'') p)"
  by (auto simp: onSubmit_def split: option.splits)

lemma submit_invalid_email:
  "\<not> isValidEmail (JSString (trim e)) \<Longrightarrow>
   onSubmit lc now (Some e) (Some pw) p =
     (RejectedInvalidEmail,
      focus EmailField (showErrorMessage (js ''Please enter a valid email address'') p))"
  by (simp add: onSubmit_def)

lemma submit_empty_password:
  "isValidEmail (JSString (trim e)) \<Longrightarrow> blank pw \<Longrightarrow>
   onSubmit lc now (Some e) (Some pw) p =
     (RejectedEmptyPassword,
      focus PasswordField (showErrorMessage (js ''Please enter your password'') p))"
  by (auto simp: onSubmit_def trim_empty_iff blank_def)

lemma nonblank: "\<not> blank pw \<Longrightarrow> pw \<noteq> [] \<and> trim pw \<noteq> []"
  by (auto simp: trim_empty_iff) (simp add: blank_def)

lemma submit_denied:
  "isValidEmail (JSString (trim e)) \<Longrightarrow> \<not> blank pw \<Longrightarrow> storageDenied p \<Longrightarrow>
   onSubmit lc now (Some e) (Some pw) p = (Uncaught SecurityError, p)"
  using nonblank[of pw] by (simp add: onSubmit_def getItem_def)

lemma submit_no_account:
  "isValidEmail (JSString (trim e)) \<Longrightarrow> \<not> blank pw \<Longrightarrow> \<not> storageDenied p \<Longrightarrow>
   credentialRecord (localStorage p) = None \<Longrightarrow>
   onSubmit lc now (Some e) (Some pw) p =
     (RejectedNoAccount,
      showErrorMessage (js ''No account found. Please create an account first.'') (afterRead p))"
  using nonblank[of pw]
  by (cases "localStorage p REGISTERED_EMAIL_KEY")
     (auto simp: onSubmit_def getItem_def afterRead_def credentialRecord_def
        cleanRegistered_string cleanRegistered_null isValidEmail_empty split: if_splits)

lemma submit_mismatch:
  "isValidEmail (JSString (trim e)) \<Longrightarrow> \<not> blank pw \<Longrightarrow> \<not> storageDenied p \<Longrightarrow>
   credentialRecord (localStorage p) = Some r \<Longrightarrow> lc (trim e) \<noteq> lc r \<Longrightarrow>
   onSubmit lc now (Some e) (Some pw) p =
     (RejectedMismatch,
      focus EmailField
        (showErrorMessage (js ''Email not found. Please check your email or create an account.'')
           (console_write (ConsoleLog (trim e) r False) (afterRead p))))"
  using nonblank[of pw]
  by (cases "localStorage p REGISTERED_EMAIL_KEY")
     (auto simp: onSubmit_def getItem_def afterRead_def credentialRecord_def
        cleanRegistered_string cleanRegistered_null isValidEmail_empty split: if_splits)

lemma submit_accepted:
  "isValidEmail (JSString (trim e)) \<Longrightarrow> \<not> blank pw \<Longrightarrow> \<not> storageDenied p \<Longrightarrow>
   credentialRecord (localStorage p) = Some r \<Longrightarrow> lc (trim e) = lc r \<Longrightarrow>
   onSubmit lc now (Some e) (Some pw) p =
     (Accepted,
      case signInEffects (trim e) now (console_write (ConsoleLog (trim e) r True) (afterRead p)) of
        (None, p3) \<Rightarrow> p3
      | (Some error, p3) \<Rightarrow>
          showErrorMessage (js ''Sign-in failed. Please try again.'')
            (console_write (ConsoleError error) p3))"
  using nonblank[of pw]
  by (cases "localStorage p REGISTERED_EMAIL_KEY")
     (auto simp: onSubmit_def getItem_def afterRead_def credentialRecord_def
        cleanRegistered_string cleanRegistered_null isValidEmail_empty split: if_splits prod.splits option.splits)

lemma keys_differ: "REGISTERED_EMAIL_KEY \<noteq> SESSION_FLAG_KEY"
  by (simp add: REGISTERED_EMAIL_KEY_def SESSION_FLAG_KEY_def js_def)

lemma showErrorMessage_fields:
  "localStorage (showErrorMessage m p) = localStorage p"
  "storageDenied (showErrorMessage m p) = storageDenied p"
  "quotaExceeded (showErrorMessage m p) = quotaExceeded p"
  "storageCalls (showErrorMessage m p) = storageCalls p"
  "dispatched (showErrorMessage m p) = dispatched p"
  "console (showErrorMessage m p) = console p"
  "location (showErrorMessage m p) = location p"
  "focused (showErrorMessage m p) = focused p"
  "nextId (showErrorMessage m p) = Suc (nextId p)"
  "timers (showErrorMessage m p) = timers p @ [(5000, RemoveElement (nextId p))]"
  by (simp_all add: showErrorMessage_def Let_def setTimeout_def)

lemma showSuccessMessage_fields:
  "localStorage (showSuccessMessage m p) = localStorage p"
  "storageDenied (showSuccessMessage m p) = storageDenied p"
  "quotaExceeded (showSuccessMessage m p) = quotaExceeded p"
  "storageCalls (showSuccessMessage m p) = storageCalls p"
  "dispatched (showSuccessMessage m p) = dispatched p"
  "console (showSuccessMessage m p) = console p"
  "location (showSuccessMessage m p) = location p"
  "focused (showSuccessMessage m p) = focused p"
  "nextId (showSuccessMessage m p) = Suc (nextId p)"
  "timers (showSuccessMessage m p) = timers p"
  by (simp_all add: showSuccessMessage_def Let_def)

lemmas effect_defs = focus_def console_write_def dispatchEvent_def setTimeout_def afterRead_def

lemma created_is_message:
  "is_form_message \<lparr>nid = i, tagName = ''div'', classList = [''form-message'', kind],
       typeAttr = None, disabled = False, textContent = m\<rparr>"
  "\<not> is_submit_button \<lparr>nid = i, tagName = ''div'', classList = [''form-message'', kind],
       typeAttr = None, disabled = False, textContent = m\<rparr>"
  by (simp_all add: is_form_message_def is_submit_button_def)

lemma showErrorMessage_count:
  "count_matching is_form_message (formChildren (showErrorMessage m p)) = 1"
  by (simp add: showErrorMessage_def Let_def setTimeout_def createMessage_def count_append
      count_insertBefore count_remove_same created_is_message split: option.splits)

lemma showSuccessMessage_count:
  "count_matching is_form_message (formChildren (showSuccessMessage m p)) = 1"
  by (simp add: showSuccessMessage_def Let_def createMessage_def count_append
      count_insertBefore count_disableFirst count_remove_same created_is_message
      split: option.splits)

lemma showErrorMessage_query:
  "querySelector is_form_message (formChildren (showErrorMessage m p))
     = Some (createMessage (nextId p) ''error'' m)"
  by (simp add: showErrorMessage_def Let_def setTimeout_def createMessage_def
      query_append_new query_insertBefore_new count_remove_same created_is_message
      split: option.splits)

lemma showSuccessMessage_query:
  "querySelector is_form_message (formChildren (showSuccessMessage m p))
     = Some (createMessage (nextId p) ''success'' m)"
  by (simp add: showSuccessMessage_def Let_def createMessage_def
      query_append_new query_disableFirst_other count_remove_same created_is_message
      split: option.splits)

lemma signInEffects_stored:
  "\<not> storageDenied p \<Longrightarrow> \<not> quotaExceeded p \<Longrightarrow>
   signInEffects em now p =
     (None,
      setTimeout (Redirect (js ''/'')) 1500
        (showSuccessMessage (js ''Sign-in successful! Redirecting...'')
          (dispatchEvent
             \<lparr>eventType = js ''login'', bubbles = True, detailEmail = em,
              detailTimestamp = toISOString now\<rparr>
             (p\<lparr>storageCalls := storageCalls p @ [SetItem SESSION_FLAG_KEY (js ''true'')],
                localStorage := (localStorage p)(SESSION_FLAG_KEY \<mapsto> js ''true'')\<rparr>))))"
  by (simp add: signInEffects_def setItem_def)

lemma signInEffects_thrown:
  "\<not> storageDenied p \<Longrightarrow> quotaExceeded p \<Longrightarrow>
   signInEffects em now p =
     (Some QuotaExceededError,
      p\<lparr>storageCalls := storageCalls p @ [SetItem SESSION_FLAG_KEY (js ''true'')]\<rparr>)"
  by (simp add: signInEffects_def setItem_def)


lemma setItemCalls_append: "setItemCalls (a @ b) = setItemCalls a @ setItemCalls b"
  by (induction a rule: setItemCalls.induct) simp_all

lemma accepted_page:
  assumes "isValidEmail (JSString (trim e))" "\<not> blank pw" "\<not> storageDenied p"
    "credentialRecord (localStorage p) = Some r" "lc (trim e) = lc r"
  shows "onSubmit lc now (Some e) (Some pw) p =
     (Accepted,
      if quotaExceeded p
      then showErrorMessage (js ''Sign-in failed. Please try again.'')
             (console_write (ConsoleError QuotaExceededError)
                ((console_write (ConsoleLog (trim e) r True) (afterRead p))
                   \<lparr>storageCalls := storageCalls p @
                      [GetItem REGISTERED_EMAIL_KEY, SetItem SESSION_FLAG_KEY (js ''true'')]\<rparr>))
      else setTimeout (Redirect (js ''/'')) 1500
             (showSuccessMessage (js ''Sign-in successful! Redirecting...'')
               (dispatchEvent
                  \<lparr>eventType = js ''login'', bubbles = True, detailEmail = trim e,
                   detailTimestamp = toISOString now\<rparr>
                  ((console_write (ConsoleLog (trim e) r True) (afterRead p))
                     \<lparr>storageCalls := storageCalls p @
                        [GetItem REGISTERED_EMAIL_KEY, SetItem SESSION_FLAG_KEY (js ''true'')],
                      localStorage := (localStorage p)(SESSION_FLAG_KEY \<mapsto> js ''true'')\<rparr>))))"
proof (cases "quotaExceeded p")
  case True
  then have "\<not> storageDenied (console_write (ConsoleLog (trim e) r True) (afterRead p))"
    "quotaExceeded (console_write (ConsoleLog (trim e) r True) (afterRead p))"
    using assms(3) by (simp_all add: effect_defs)
  from signInEffects_thrown[OF this] True show ?thesis
    by (simp add: submit_accepted[OF assms] effect_defs)
next
  case False
  then have "\<not> storageDenied (console_write (ConsoleLog (trim e) r True) (afterRead p))"
    "\<not> quotaExceeded (console_write (ConsoleLog (trim e) r True) (afterRead p))"
    using assms(3) by (simp_all add: effect_defs)
  from signInEffects_stored[OF this] False show ?thesis
    by (simp add: submit_accepted[OF assms] effect_defs)
qed

lemma onSubmit_cases [case_names fields invalid blank denied absent mismatch stored thrown]:
  obtains
    (fields) "e = None \<or> pw = None"
      "onSubmit lc now e pw p =
         (FieldsNotFound, showErrorMessage (js ''Form fields not found'') p)"
  | (invalid) ev pv where "e = Some ev" "pw = Some pv"
      "decide lc (trim ev) pv (localStorage p) = RejectedInvalidEmail"
      "onSubmit lc now e pw p =
         (RejectedInvalidEmail,
          focus EmailField (showErrorMessage (js ''Please enter a valid email address'') p))"
  | (blank) ev pv where "e = Some ev" "pw = Some pv"
      "decide lc (trim ev) pv (localStorage p) = RejectedEmptyPassword"
      "onSubmit lc now e pw p =
         (RejectedEmptyPassword,
          focus PasswordField (showErrorMessage (js ''Please enter your password'') p))"
  | (denied) ev pv where "e = Some ev" "pw = Some pv"
      "isValidEmail (JSString (trim ev))" "\<not> blank pv" "storageDenied p"
      "onSubmit lc now e pw p = (Uncaught SecurityError, p)"
  | (absent) ev pv where "e = Some ev" "pw = Some pv" "\<not> storageDenied p"
      "decide lc (trim ev) pv (localStorage p) = RejectedNoAccount"
      "onSubmit lc now e pw p =
         (RejectedNoAccount,
          showErrorMessage (js ''No account found. Please create an account first.'')
            (afterRead p))"
  | (mismatch) ev pv r where "e = Some ev" "pw = Some pv" "\<not> storageDenied p"
      "credentialRecord (localStorage p) = Some r"
      "decide lc (trim ev) pv (localStorage p) = RejectedMismatch"
      "onSubmit lc now e pw p =
         (RejectedMismatch,
          focus EmailField
            (showErrorMessage
               (js ''Email not found. Please check your email or create an account.'')
               (console_write (ConsoleLog (trim ev) r False) (afterRead p))))"
  | (stored) ev pv r where "e = Some ev" "pw = Some pv" "\<not> storageDenied p"
      "credentialRecord (localStorage p) = Some r"
      "decide lc (trim ev) pv (localStorage p) = Accepted" "\<not> quotaExceeded p"
      "onSubmit lc now e pw p =
         (Accepted,
          setTimeout (Redirect (js ''/'')) 1500
            (showSuccessMessage (js ''Sign-in successful! Redirecting...'')
              (dispatchEvent
                 \<lparr>eventType = js ''login'', bubbles = True, detailEmail = trim ev,
                  detailTimestamp = toISOString now\<rparr>
                 ((acceptedLog (trim ev) r p)
                    \<lparr>localStorage := (localStorage p)(SESSION_FLAG_KEY \<mapsto> js ''true'')\<rparr>))))"
  | (thrown) ev pv r where "e = Some ev" "pw = Some pv" "\<not> storageDenied p"
      "credentialRecord (localStorage p) = Some r"
      "decide lc (trim ev) pv (localStorage p) = Accepted" "quotaExceeded p"
      "onSubmit lc now e pw p =
         (Accepted,
          showErrorMessage (js ''Sign-in failed. Please try again.'')
            (console_write (ConsoleError QuotaExceededError) (acceptedLog (trim ev) r p)))"
proof (cases "e = None \<or> pw = None")
  case True
  then show ?thesis using fields submit_fields_missing by blast
next
  case False
  then obtain ev pv where ep: "e = Some ev" "pw = Some pv" by auto
  show ?thesis
  proof (cases "isValidEmail (JSString (trim ev))")
    case False
    then show ?thesis using invalid[OF ep] by (simp add: ep submit_invalid_email decide_def)
  next
    case valid: True
    show ?thesis
    proof (cases "blank pv")
      case True
      then show ?thesis using blank[OF ep] valid
        by (simp add: ep submit_empty_password decide_def)
    next
      case nb: False
      show ?thesis
      proof (cases "storageDenied p")
        case True
        then show ?thesis using denied[OF ep valid nb] by (simp add: ep submit_denied valid nb)
      next
        case nd: False
        show ?thesis
        proof (cases "credentialRecord (localStorage p)")
          case None
          then show ?thesis using absent[OF ep nd] valid nb nd
            by (simp add: ep submit_no_account decide_def)
        next
          case (Some r)
          show ?thesis
          proof (cases "lc (trim ev) = lc r")
            case False
            then show ?thesis using mismatch[OF ep nd Some] valid nb nd Some
              by (simp add: ep submit_mismatch decide_def)
          next
            case eq: True
            have d: "decide lc (trim ev) pv (localStorage p) = Accepted"
              using valid nb Some eq by (simp add: decide_def)
            show ?thesis
            proof (cases "quotaExceeded p")
              case True
              then show ?thesis using thrown[OF ep nd Some d True]
                by (simp add: ep accepted_page[OF valid nb nd Some eq] acceptedLog_def)
            next
              case False
              then show ?thesis using stored[OF ep nd Some d False]
                by (simp add: ep accepted_page[OF valid nb nd Some eq] acceptedLog_def effect_defs)
            qed
          qed
        qed
      qed
    qed
  qed
qed

section \<open>The authentication decision\<close>

lemma onSubmit_outcome:
  "\<not> storageDenied p \<Longrightarrow>
   fst (onSubmit lc now (Some e) (Some pw) p) = decide lc (trim e) pw (localStorage p)"
  by (cases rule: onSubmit_cases[of "Some e" "Some pw" lc now p]) simp_all



lemma decide_example:
  "decide asciiLower (trim (js '' ALICE@example.com'')) (js ''pw'')
     [REGISTERED_EMAIL_KEY \<mapsto> storedAlice] = Accepted"
  by (simp add: decide_def credentialRecord_def storedAlice_def sanitize_def
      blank_def asciiLower_def isValidEmail_def emailRegex_def plus_def lit_def notSpaceAt_def
      js_def trim_def isWhiteSpace_def)

lemma examplePage_fields:
  "localStorage examplePage = [REGISTERED_EMAIL_KEY \<mapsto> storedAlice]"
  "\<not> storageDenied examplePage"
  "\<not> quotaExceeded examplePage"
  "nextId examplePage = 4"
  "timers examplePage = []"
  "dispatched examplePage = []"
  "console examplePage = []"
  "storageCalls examplePage = []"
  by (simp_all add: examplePage_def)


section \<open>Storage, the credential and the password\<close>

lemma fireTimer_storage:
  "localStorage (fireTimer i p) = localStorage p \<and> storageCalls (fireTimer i p) = storageCalls p"
  by (simp add: fireTimer_def runTask_def split: task.splits)

lemma onSubmit_storage:
  "localStorage (snd (onSubmit lc now e pw p)) =
     (if fst (onSubmit lc now e pw p) = Accepted \<and> \<not> quotaExceeded p
      then (localStorage p)(SESSION_FLAG_KEY \<mapsto> js ''true'') else localStorage p)"
  by (cases rule: onSubmit_cases[of e pw lc now p])
     (simp_all add: showErrorMessage_fields showSuccessMessage_fields effect_defs acceptedLog_def)

lemma onSubmit_writes:
  "setItemCalls (storageCalls (snd (onSubmit lc now e pw p))) =
     setItemCalls (storageCalls p) @
       (if fst (onSubmit lc now e pw p) = Accepted then [(SESSION_FLAG_KEY, js ''true'')] else [])"
  by (cases rule: onSubmit_cases[of e pw lc now p])
     (simp_all add: showErrorMessage_fields showSuccessMessage_fields effect_defs acceptedLog_def
        setItemCalls_append)

lemma step_other_keys:
  "k \<noteq> SESSION_FLAG_KEY \<Longrightarrow> localStorage (step lc ev p) k = localStorage p k"
  by (cases ev) (simp_all add: onSubmit_storage fireTimer_storage)

lemma run_other_keys:
  "k \<noteq> SESSION_FLAG_KEY \<Longrightarrow> localStorage (run lc evs p) k = localStorage p k"
  by (induction evs arbitrary: p) (simp_all add: step_other_keys)

text \<open>
  C2, as the code has it. Whatever the fields hold, the listener changes local storage
  in one way only: it asks for the session flag to be set to \<open>true\<close>, and it asks exactly
  when the outcome is \<open>Accepted\<close>; the flag is stored exactly when the outcome is
  \<open>Accepted\<close> and the write does not throw. Every other outcome leaves local storage as
  it was, the stored credential is never written or removed, the timers touch no
  storage, and over any run of submissions and timers every key but the session flag
  keeps its value.
\<close>

theorem storage_only_session_flag:
  "localStorage (snd (onSubmit lc now e pw p)) =
     (if fst (onSubmit lc now e pw p) = Accepted \<and> \<not> quotaExceeded p
      then (localStorage p)(SESSION_FLAG_KEY \<mapsto> js ''true'') else localStorage p) \<and>
   setItemCalls (storageCalls (snd (onSubmit lc now e pw p))) =
     setItemCalls (storageCalls p) @
       (if fst (onSubmit lc now e pw p) = Accepted then [(SESSION_FLAG_KEY, js ''true'')] else []) \<and>
   localStorage (snd (onSubmit lc now e pw p)) REGISTERED_EMAIL_KEY
     = localStorage p REGISTERED_EMAIL_KEY \<and>
   localStorage (fireTimer i p) = localStorage p \<and>
   storageCalls (fireTimer i p) = storageCalls p \<and>
   (\<forall>k. k \<noteq> SESSION_FLAG_KEY \<longrightarrow> localStorage (run lc evs p) k = localStorage p k)"
  using keys_differ
  by (simp add: onSubmit_storage onSubmit_writes fireTimer_storage run_other_keys)

lemma decide_example_mismatch:
  "decide asciiLower (trim (js ''bob@example.com'')) (js ''pw'')
     [REGISTERED_EMAIL_KEY \<mapsto> storedAlice] = RejectedMismatch"
  by (simp add: decide_def credentialRecord_def storedAlice_def sanitize_def
      blank_def asciiLower_def isValidEmail_def emailRegex_def plus_def lit_def notSpaceAt_def
      js_def trim_def isWhiteSpace_def)

lemma decide_alice:
  "decide asciiLower (trim (js ''ALICE@example.com'')) (js ''pw'')
     [REGISTERED_EMAIL_KEY \<mapsto> storedAlice] = Accepted"
  by (simp add: decide_def credentialRecord_def storedAlice_def sanitize_def
      blank_def asciiLower_def isValidEmail_def emailRegex_def plus_def lit_def notSpaceAt_def
      js_def trim_def isWhiteSpace_def)

lemma alice_accepted:
  "localStorage q = [REGISTERED_EMAIL_KEY \<mapsto> storedAlice] \<Longrightarrow> \<not> storageDenied q \<Longrightarrow>
   fst (onSubmit asciiLower now (Some (js ''ALICE@example.com'')) (Some (js ''pw'')) q) = Accepted"
  by (simp add: onSubmit_outcome decide_alice)

text \<open>
  C2 as stated fails when the write throws: the outcome is \<open>Accepted\<close> and local storage
  is what it was, with no session flag in it.
\<close>

theorem storage_only_session_flag_counterexample:
  "fst (onSubmit asciiLower 1735689600000 (Some (js ''ALICE@example.com''))
         (Some (js ''pw'')) (examplePage\<lparr>quotaExceeded := True\<rparr>)) = Accepted \<and>
   localStorage (snd (onSubmit asciiLower 1735689600000 (Some (js ''ALICE@example.com''))
         (Some (js ''pw'')) (examplePage\<lparr>quotaExceeded := True\<rparr>)))
     = [REGISTERED_EMAIL_KEY \<mapsto> storedAlice] \<and>
   localStorage (snd (onSubmit asciiLower 1735689600000 (Some (js ''ALICE@example.com''))
         (Some (js ''pw'')) (examplePage\<lparr>quotaExceeded := True\<rparr>))) SESSION_FLAG_KEY = None"
proof -
  let ?q = "examplePage\<lparr>quotaExceeded := True\<rparr>"
  have a: "fst (onSubmit asciiLower 1735689600000 (Some (js ''ALICE@example.com''))
      (Some (js ''pw'')) ?q) = Accepted"
    by (rule alice_accepted) (simp_all add: examplePage_fields)
  have k: "SESSION_FLAG_KEY \<noteq> REGISTERED_EMAIL_KEY" using keys_differ by simp
  show ?thesis using a k by (simp add: onSubmit_storage examplePage_fields)
qed

theorem storage_only_session_flag_witness:
  "localStorage (snd (onSubmit asciiLower 1735689600000
      (Some (js '' ALICE@example.com'')) (Some (js ''pw'')) examplePage))
     = [REGISTERED_EMAIL_KEY \<mapsto> storedAlice, SESSION_FLAG_KEY \<mapsto> js ''true''] \<and>
   localStorage (snd (onSubmit asciiLower 1735689600000
      (Some (js ''bob@example.com'')) (Some (js ''pw'')) examplePage))
     = [REGISTERED_EMAIL_KEY \<mapsto> storedAlice] \<and>
   setItemCalls (storageCalls (snd (onSubmit asciiLower 1735689600000
      (Some (js ''bob@example.com'')) (Some (js ''pw'')) examplePage))) = []"
proof -
  have a: "fst (onSubmit asciiLower 1735689600000
      (Some (js '' ALICE@example.com'')) (Some (js ''pw'')) examplePage) = Accepted"
    by (simp add: onSubmit_outcome decide_example examplePage_fields)
  have b: "fst (onSubmit asciiLower 1735689600000
      (Some (js ''bob@example.com'')) (Some (js ''pw'')) examplePage) = RejectedMismatch"
    by (simp add: onSubmit_outcome decide_example_mismatch examplePage_fields)
  show ?thesis
    using storage_only_session_flag [of asciiLower 1735689600000
        "Some (js '' ALICE@example.com'')" "Some (js ''pw'')" examplePage 0 "[]"]
      storage_only_session_flag [of asciiLower 1735689600000
        "Some (js ''bob@example.com'')" "Some (js ''pw'')" examplePage 0 "[]"]
    by (simp add: a b examplePage_fields)
qed



text \<open>
  C7. The password reaches the result through its blankness alone: two submissions that
  differ only in the password, both blank or both not, end in the same outcome and the
  same page, so in particular any two passwords that are neither empty nor white space
  only. No stored value is ever compared with it.
\<close>

theorem password_only_nonblank:
  "blank pw1 = blank pw2 \<Longrightarrow>
   onSubmit lc now e (Some pw1) p = onSubmit lc now e (Some pw2) p"
proof (cases e)
  case None
  then show ?thesis by (simp add: submit_fields_missing)
next
  case (Some ev)
  assume b: "blank pw1 = blank pw2"
  show ?thesis
  proof (cases "isValidEmail (JSString (trim ev))")
    case False
    then show ?thesis by (simp add: Some submit_invalid_email)
  next
    case valid: True
    show ?thesis
    proof (cases "blank pw1")
      case True
      then show ?thesis using valid b by (simp add: Some submit_empty_password)
    next
      case nb: False
      then have nb2: "\<not> blank pw2" using b by simp
      show ?thesis
      proof (cases "storageDenied p")
        case True
        then show ?thesis using valid nb nb2 by (simp add: Some submit_denied)
      next
        case nd: False
        show ?thesis
        proof (cases "credentialRecord (localStorage p)")
          case None
          then show ?thesis using valid nb nb2 nd by (simp add: Some submit_no_account)
        next
          case r: (Some r)
          show ?thesis
            using valid nb nb2 nd r
            by (cases "lc (trim ev) = lc r") (simp_all add: Some submit_mismatch accepted_page)
        qed
      qed
    qed
  qed
qed

theorem password_only_nonblank_witness:
  "blank (js ''pw'') = blank (js ''correct horse'') \<and>
   \<not> blank (js ''pw'') \<and>
   onSubmit asciiLower 1735689600000 (Some (js '' ALICE@example.com''))
      (Some (js ''pw'')) examplePage
   = onSubmit asciiLower 1735689600000 (Some (js '' ALICE@example.com''))
      (Some (js ''correct horse'')) examplePage"
proof -
  have b: "blank (js ''pw'') = blank (js ''correct horse'')" "\<not> blank (js ''pw'')"
    by (simp_all add: blank_def js_def isWhiteSpace_def)
  show ?thesis using b password_only_nonblank [OF b(1)] by blast
qed

section \<open>Messages and the effects of a sign-in\<close>

lemma onSubmit_count:
  "fst (onSubmit lc now e pw p) \<noteq> Uncaught SecurityError \<Longrightarrow>
   count_matching is_form_message (formChildren (snd (onSubmit lc now e pw p))) = 1"
  by (cases rule: onSubmit_cases[of e pw lc now p])
     (simp_all add: showErrorMessage_count showSuccessMessage_count effect_defs)

lemma onSubmit_count_le:
  "count_matching is_form_message (formChildren p) \<le> 1 \<Longrightarrow>
   count_matching is_form_message (formChildren (snd (onSubmit lc now e pw p))) \<le> 1"
  by (cases rule: onSubmit_cases[of e pw lc now p])
     (simp_all add: showErrorMessage_count showSuccessMessage_count effect_defs)

lemma fireTimer_count:
  "count_matching is_form_message (formChildren (fireTimer i p))
     \<le> count_matching is_form_message (formChildren p)"
  by (simp add: fireTimer_def runTask_def count_remove_le split: task.splits)

lemma step_count:
  "count_matching is_form_message (formChildren p) \<le> 1 \<Longrightarrow>
   count_matching is_form_message (formChildren (step lc ev p)) \<le> 1"
proof (cases ev)
  case (Submit e pw now)
  assume "count_matching is_form_message (formChildren p) \<le> 1"
  then show ?thesis using onSubmit_count_le[of p lc now e pw] Submit by simp
next
  case (TimerFires i)
  assume "count_matching is_form_message (formChildren p) \<le> 1"
  then show ?thesis using fireTimer_count[of i p] TimerFires by simp
qed

lemma run_count:
  "count_matching is_form_message (formChildren p) \<le> 1 \<Longrightarrow>
   count_matching is_form_message (formChildren (run lc evs p)) \<le> 1"
proof (induction evs arbitrary: p)
  case Nil
  then show ?case by simp
next
  case (Cons ev evs)
  from Cons.prems have "count_matching is_form_message (formChildren (step lc ev p)) \<le> 1"
    by (rule step_count)
  then have "count_matching is_form_message (formChildren (run lc evs (step lc ev p))) \<le> 1"
    by (rule Cons.IH)
  then show ?case by simp
qed

lemma is_submit_button_disabled: "is_submit_button (a\<lparr>disabled := True\<rparr>) = is_submit_button a"
  by (simp add: is_submit_button_def)

lemma showErrorMessage_placed:
  "querySelector is_submit_button (remove_matching is_form_message (formChildren p)) \<noteq> None \<Longrightarrow>
   previousSibling is_submit_button None (formChildren (showErrorMessage m p))
     = Some (createMessage (nextId p) ''error'' m)"
  by (auto simp: showErrorMessage_def Let_def setTimeout_def createMessage_def
      previousSibling_insertBefore created_is_message)

lemma showSuccessMessage_placed:
  "querySelector is_submit_button (remove_matching is_form_message (formChildren p)) \<noteq> None \<Longrightarrow>
   previousSibling is_submit_button None (formChildren (showSuccessMessage m p))
     = Some (createMessage (nextId p) ''success'' m)"
  by (auto simp: showSuccessMessage_def Let_def createMessage_def
      previousSibling_disableFirst created_is_message is_submit_button_disabled)

lemma show_appended:
  "querySelector is_submit_button (remove_matching is_form_message (formChildren p)) = None \<Longrightarrow>
   formChildren (showErrorMessage m p)
     = remove_matching is_form_message (formChildren p) @ [createMessage (nextId p) ''error'' m] \<and>
   formChildren (showSuccessMessage m p)
     = remove_matching is_form_message (formChildren p) @ [createMessage (nextId p) ''success'' m]"
  by (simp add: showErrorMessage_def showSuccessMessage_def Let_def setTimeout_def)

text \<open>
  C8. Showing a message of either kind first detaches every message element of the form,
  so that none is left, and then inserts the new one: as the previous sibling of the
  submit button when the form has one, as the last child of the form otherwise. The form
  then holds exactly one message. After a submission that shows a message, and after any
  run of further submissions and timers, the form holds at most one message; a form
  that starts with at most one never holds more.
\<close>

theorem at_most_one_message:
  "count_matching is_form_message (remove_matching is_form_message (formChildren p)) = 0 \<and>
   count_matching is_form_message (formChildren (showErrorMessage m p)) = 1 \<and>
   count_matching is_form_message (formChildren (showSuccessMessage m p)) = 1 \<and>
   (querySelector is_submit_button (remove_matching is_form_message (formChildren p)) \<noteq> None \<longrightarrow>
      previousSibling is_submit_button None (formChildren (showErrorMessage m p))
        = Some (createMessage (nextId p) ''error'' m) \<and>
      previousSibling is_submit_button None (formChildren (showSuccessMessage m p))
        = Some (createMessage (nextId p) ''success'' m)) \<and>
   (querySelector is_submit_button (remove_matching is_form_message (formChildren p)) = None \<longrightarrow>
      formChildren (showErrorMessage m p)
        = remove_matching is_form_message (formChildren p) @ [createMessage (nextId p) ''error'' m] \<and>
      formChildren (showSuccessMessage m p)
        = remove_matching is_form_message (formChildren p) @ [createMessage (nextId p) ''success'' m]) \<and>
   (fst (onSubmit lc now e pw p) \<noteq> Uncaught SecurityError \<longrightarrow>
      count_matching is_form_message (formChildren (snd (onSubmit lc now e pw p))) = 1 \<and>
      count_matching is_form_message
        (formChildren (run lc evs (snd (onSubmit lc now e pw p)))) \<le> 1) \<and>
   (count_matching is_form_message (formChildren p) \<le> 1 \<longrightarrow>
      count_matching is_form_message (formChildren (run lc evs p)) \<le> 1)"
proof -
  have after: "fst (onSubmit lc now e pw p) \<noteq> Uncaught SecurityError \<longrightarrow>
      count_matching is_form_message
        (formChildren (run lc evs (snd (onSubmit lc now e pw p)))) \<le> 1"
  proof
    assume "fst (onSubmit lc now e pw p) \<noteq> Uncaught SecurityError"
    then have "count_matching is_form_message (formChildren (snd (onSubmit lc now e pw p))) \<le> 1"
      by (simp add: onSubmit_count)
    then show "count_matching is_form_message
        (formChildren (run lc evs (snd (onSubmit lc now e pw p)))) \<le> 1"
      by (rule run_count)
  qed
  have inv: "count_matching is_form_message (formChildren p) \<le> 1 \<longrightarrow>
      count_matching is_form_message (formChildren (run lc evs p)) \<le> 1"
    using run_count by blast
  show ?thesis
    using show_appended[of p m] after inv
    by (simp add: count_remove_same showErrorMessage_count showSuccessMessage_count
        showErrorMessage_placed showSuccessMessage_placed onSubmit_count)
qed

theorem at_most_one_message_witness:
  "querySelector is_submit_button
      (remove_matching is_form_message (formChildren examplePage)) \<noteq> None \<and>
   previousSibling is_submit_button None
      (formChildren (showErrorMessage (js ''Please enter your password'') examplePage))
     = Some (createMessage 4 ''error'' (js ''Please enter your password'')) \<and>
   querySelector is_submit_button
      (remove_matching is_form_message (formChildren (examplePage\<lparr>formChildren := []\<rparr>))) = None \<and>
   formChildren (showErrorMessage (js ''Please enter your password'')
      (examplePage\<lparr>formChildren := []\<rparr>))
     = [createMessage 4 ''error'' (js ''Please enter your password'')] \<and>
   fst (onSubmit asciiLower 1735689600000 None None examplePage) \<noteq> Uncaught SecurityError \<and>
   count_matching is_form_message
      (formChildren (snd (onSubmit asciiLower 1735689600000 None None examplePage))) = 1 \<and>
   count_matching is_form_message (formChildren examplePage) \<le> 1 \<and>
   count_matching is_form_message
      (formChildren (run asciiLower
         [Submit (Some (js ''bob'')) (Some []) 1735689600000,
          TimerFires 0,
          Submit (Some (js ''ALICE@example.com'')) (Some (js ''pw'')) 1735689601000]
         examplePage)) \<le> 1"
proof -
  have b: "querySelector is_submit_button
      (remove_matching is_form_message (formChildren examplePage)) \<noteq> None"
    by (simp add: examplePage_def plainElement_def is_form_message_def is_submit_button_def)
  have n: "querySelector is_submit_button
      (remove_matching is_form_message (formChildren (examplePage\<lparr>formChildren := []\<rparr>))) = None"
    by simp
  have c: "count_matching is_form_message (formChildren examplePage) \<le> 1"
    by (simp add: examplePage_def plainElement_def is_form_message_def)
  have i: "nextId (examplePage\<lparr>formChildren := []\<rparr>) = 4" by (simp add: examplePage_fields)
  have f: "fst (onSubmit asciiLower 1735689600000 None None examplePage) \<noteq> Uncaught SecurityError"
    by (simp add: submit_fields_missing)
  show ?thesis
    using b n c i f
      at_most_one_message [of examplePage "js ''Please enter your password''" asciiLower
        1735689600000 None None
        "[Submit (Some (js ''bob'')) (Some []) 1735689600000,
          TimerFires 0,
          Submit (Some (js ''ALICE@example.com'')) (Some (js ''pw'')) 1735689601000]"]
      at_most_one_message [of "examplePage\<lparr>formChildren := []\<rparr>"
        "js ''Please enter your password''" asciiLower 1735689600000 None None "[]"]
    by (simp add: examplePage_fields)
qed

text \<open>
  C9. The claim holds of the failure it names: when the write of the session flag throws
  on an accepted submission, the exception is caught, the console records it, the one
  message of the form is the error \<open>Sign-in failed. Please try again.\<close>, no event is
  dispatched, storage is unchanged and no redirect is scheduled. It fails where the code
  reads the store: the read stands before the \<open>try\<close>, so on a page that is denied its
  storage a submission that passes both validations leaves the listener with
  \<open>SecurityError\<close> uncaught, and the page is as it was, with no message. This is the
  only exception that leaves the listener; on every other path the form ends with
  exactly one message, the success message when the sign-in effects were applied and the
  error message of the outcome otherwise.
\<close>

theorem storage_read_failure_uncaught:
  "(storageDenied p \<and> isValidEmail (JSString (trim ev)) \<and> \<not> blank pv \<longrightarrow>
      onSubmit lc now (Some ev) (Some pv) p = (Uncaught SecurityError, p)) \<and>
   (fst (onSubmit lc now e pw p) = Accepted \<and> quotaExceeded p \<longrightarrow>
      querySelector is_form_message (formChildren (snd (onSubmit lc now e pw p)))
        = Some (Node \<lparr>nid = nextId p, tagName = ''div'', classList = [''form-message'', ''error''],
                      typeAttr = None, disabled = False,
                      textContent = js ''Sign-in failed. Please try again.''\<rparr> []) \<and>
      last (console (snd (onSubmit lc now e pw p))) = ConsoleError QuotaExceededError \<and>
      dispatched (snd (onSubmit lc now e pw p)) = dispatched p \<and>
      localStorage (snd (onSubmit lc now e pw p)) = localStorage p \<and>
      timers (snd (onSubmit lc now e pw p)) = timers p @ [(5000, RemoveElement (nextId p))]) \<and>
   (\<forall>x. fst (onSubmit lc now e pw p) = Uncaught x \<longrightarrow> x = SecurityError \<and> storageDenied p) \<and>
   (fst (onSubmit lc now e pw p) \<noteq> Uncaught SecurityError \<longrightarrow>
      count_matching is_form_message (formChildren (snd (onSubmit lc now e pw p))) = 1 \<and>
      querySelector is_form_message (formChildren (snd (onSubmit lc now e pw p))) =
        Some (Node \<lparr>nid = nextId p, tagName = ''div'',
                     classList = [''form-message'',
                       if fst (onSubmit lc now e pw p) = Accepted \<and> \<not> quotaExceeded p
                       then ''success'' else ''error''],
                     typeAttr = None, disabled = False,
                     textContent =
                       (case fst (onSubmit lc now e pw p) of
                          FieldsNotFound \<Rightarrow> js ''Form fields not found''
                        | RejectedInvalidEmail \<Rightarrow> js ''Please enter a valid email address''
                        | RejectedEmptyPassword \<Rightarrow> js ''Please enter your password''
                        | RejectedNoAccount \<Rightarrow>
                            js ''No account found. Please create an account first.''
                        | RejectedMismatch \<Rightarrow>
                            js ''Email not found. Please check your email or create an account.''
                        | Accepted \<Rightarrow>
                            if quotaExceeded p then js ''Sign-in failed. Please try again.''
                            else js ''Sign-in successful! Redirecting...''
                        | Uncaught x \<Rightarrow> [])\<rparr> []))"
proof (intro conjI impI)
  assume "storageDenied p \<and> isValidEmail (JSString (trim ev)) \<and> \<not> blank pv"
  then show "onSubmit lc now (Some ev) (Some pv) p = (Uncaught SecurityError, p)"
    by (simp add: submit_denied)
qed (cases rule: onSubmit_cases[of e pw lc now p];
     simp add: showErrorMessage_count showSuccessMessage_count showErrorMessage_query
        showSuccessMessage_query showErrorMessage_fields showSuccessMessage_fields
        effect_defs acceptedLog_def createMessage_def)+

theorem storage_read_failure_uncaught_witness:
  "storageDenied (examplePage\<lparr>storageDenied := True\<rparr>) \<and>
   isValidEmail (JSString (trim (js ''ALICE@example.com''))) \<and> \<not> blank (js ''pw'') \<and>
   onSubmit asciiLower 1735689600000 (Some (js ''ALICE@example.com'')) (Some (js ''pw''))
      (examplePage\<lparr>storageDenied := True\<rparr>)
     = (Uncaught SecurityError, examplePage\<lparr>storageDenied := True\<rparr>) \<and>
   count_matching is_form_message (formChildren (examplePage\<lparr>storageDenied := True\<rparr>)) = 0"
proof -
  have v: "isValidEmail (JSString (trim (js ''ALICE@example.com''))) \<and> \<not> blank (js ''pw'')"
    by (simp add: blank_def isValidEmail_def emailRegex_def plus_def lit_def notSpaceAt_def
        js_def trim_def isWhiteSpace_def)
  have c: "count_matching is_form_message (formChildren (examplePage\<lparr>storageDenied := True\<rparr>)) = 0"
    by (simp add: examplePage_def plainElement_def is_form_message_def)
  show ?thesis
    using v c
      storage_read_failure_uncaught [of "examplePage\<lparr>storageDenied := True\<rparr>"
        "js ''ALICE@example.com''" "js ''pw''" asciiLower 1735689600000 None None]
    by simp
qed

text \<open>
  C5, as the code has it. On an accepted submission whose write of the session flag does
  not throw, the flag is stored as \<open>true\<close>; exactly one \<open>login\<close> event is dispatched,
  bubbling, with the trimmed entered email in its case and the ISO-8601 string of the
  current time; the one message of the form is a \<open>div\<close> of the classes
  \<open>form-message\<close> and \<open>success\<close> with the text \<open>Sign-in successful! Redirecting...\<close>;
  and one timer of 1500 ms is added, which sets the location to the site root when it
  fires and is then gone. When the read of the store returns the stored record of the
  example, \<open>ALICE@example.com\<close> and any password that is not blank are accepted, given
  that the two emails lower-case to the same string.
\<close>

theorem accepted_effects:
  "(fst (onSubmit lc now (Some e) (Some pw) p) = Accepted \<and> \<not> quotaExceeded p \<longrightarrow>
      localStorage (snd (onSubmit lc now (Some e) (Some pw) p))
        = (localStorage p)(SESSION_FLAG_KEY \<mapsto> js ''true'') \<and>
      dispatched (snd (onSubmit lc now (Some e) (Some pw) p))
        = dispatched p @
            [\<lparr>eventType = js ''login'', bubbles = True, detailEmail = trim e,
              detailTimestamp = toISOString now\<rparr>] \<and>
      matches isoRegex (toISOString now) \<and>
      querySelector is_form_message (formChildren (snd (onSubmit lc now (Some e) (Some pw) p)))
        = Some (Node \<lparr>nid = nextId p, tagName = ''div'',
                      classList = [''form-message'', ''success''],
                      typeAttr = None, disabled = False,
                      textContent = js ''Sign-in successful! Redirecting...''\<rparr> []) \<and>
      count_matching is_form_message (formChildren (snd (onSubmit lc now (Some e) (Some pw) p))) = 1 \<and>
      timers (snd (onSubmit lc now (Some e) (Some pw) p))
        = timers p @ [(1500, Redirect (js ''/''))] \<and>
      location (snd (onSubmit lc now (Some e) (Some pw) p)) = location p \<and>
      location (fireTimer (length (timers p)) (snd (onSubmit lc now (Some e) (Some pw) p)))
        = js ''/'' \<and>
      timers (fireTimer (length (timers p)) (snd (onSubmit lc now (Some e) (Some pw) p)))
        = timers p) \<and>
   (fst (getItem REGISTERED_EMAIL_KEY p) = Inr (JSString storedAlice) \<and>
    lc (js ''ALICE@example.com'') = lc (js ''alice@example.com'') \<and> \<not> blank pw \<longrightarrow>
      fst (onSubmit lc now (Some (js ''ALICE@example.com'')) (Some pw) p) = Accepted)"
proof (intro conjI impI)
  assume h: "fst (getItem REGISTERED_EMAIL_KEY p) = Inr (JSString storedAlice) \<and>
    lc (js ''ALICE@example.com'') = lc (js ''alice@example.com'') \<and> \<not> blank pw"
  then have g: "\<not> storageDenied p" "localStorage p REGISTERED_EMAIL_KEY = Some storedAlice"
    by (auto simp: getItem_def split: if_splits option.splits)
  have t: "trim (js ''ALICE@example.com'') = js ''ALICE@example.com''"
    by (simp add: js_def trim_def isWhiteSpace_def)
  have s: "sanitize storedAlice = js ''alice@example.com''"
    by (simp add: sanitize_def storedAlice_def js_def trim_def isWhiteSpace_def)
  have v: "isValidEmail (JSString (js ''ALICE@example.com''))"
    "isValidEmail (JSString (js ''alice@example.com''))"
    by (simp_all add: isValidEmail_def emailRegex_def plus_def lit_def notSpaceAt_def
        js_def trim_def isWhiteSpace_def)
  have ne: "js ''alice@example.com'' \<noteq> []" by (simp add: js_def)
  show "fst (onSubmit lc now (Some (js ''ALICE@example.com'')) (Some pw) p) = Accepted"
    using h g v ne by (simp add: onSubmit_outcome decide_def credentialRecord_def t s)
next
  show "matches isoRegex (toISOString now)" by (rule toISOString_iso)
qed (cases rule: onSubmit_cases[of "Some e" "Some pw" lc now p];
     simp add: showSuccessMessage_count showSuccessMessage_query showErrorMessage_fields
        showSuccessMessage_fields effect_defs acceptedLog_def fireTimer_def runTask_def
        createMessage_def)+

text \<open>
  C5 as stated fails in two ways. When the write throws, the submission is accepted, and
  yet no event is dispatched, the flag is not stored, the message is an error and no
  redirect is scheduled. And a password of two spaces is not empty, but the submission
  of the example with it is rejected for its password.
\<close>

theorem accepted_effects_counterexample:
  "fst (onSubmit asciiLower 1735689600000 (Some (js ''ALICE@example.com''))
         (Some (js ''pw'')) (examplePage\<lparr>quotaExceeded := True\<rparr>)) = Accepted \<and>
   dispatched (snd (onSubmit asciiLower 1735689600000
         (Some (js ''ALICE@example.com'')) (Some (js ''pw''))
         (examplePage\<lparr>quotaExceeded := True\<rparr>))) = [] \<and>
   localStorage (snd (onSubmit asciiLower 1735689600000
         (Some (js ''ALICE@example.com'')) (Some (js ''pw''))
         (examplePage\<lparr>quotaExceeded := True\<rparr>))) SESSION_FLAG_KEY = None \<and>
   querySelector is_form_message (formChildren (snd (onSubmit asciiLower
         1735689600000 (Some (js ''ALICE@example.com'')) (Some (js ''pw''))
         (examplePage\<lparr>quotaExceeded := True\<rparr>))))
     = Some (Node \<lparr>nid = 4, tagName = ''div'', classList = [''form-message'', ''error''],
                   typeAttr = None, disabled = False,
                   textContent = js ''Sign-in failed. Please try again.''\<rparr> []) \<and>
   timers (snd (onSubmit asciiLower 1735689600000
         (Some (js ''ALICE@example.com'')) (Some (js ''pw''))
         (examplePage\<lparr>quotaExceeded := True\<rparr>))) = [(5000, RemoveElement 4)] \<and>
   js ''  '' \<noteq> [] \<and>
   fst (onSubmit asciiLower 1735689600000 (Some (js ''ALICE@example.com''))
         (Some (js ''  '')) examplePage) = RejectedEmptyPassword"
proof -
  let ?q = "examplePage\<lparr>quotaExceeded := True\<rparr>"
  have d: "decide asciiLower (trim (js ''ALICE@example.com'')) (js ''pw'') (localStorage ?q)
      = Accepted"
    by (simp add: examplePage_fields decide_alice)
  have k: "SESSION_FLAG_KEY \<noteq> REGISTERED_EMAIL_KEY" using keys_differ by simp
  have first: "fst (onSubmit asciiLower 1735689600000 (Some (js ''ALICE@example.com''))
         (Some (js ''pw'')) ?q) = Accepted \<and>
   dispatched (snd (onSubmit asciiLower 1735689600000
         (Some (js ''ALICE@example.com'')) (Some (js ''pw'')) ?q)) = [] \<and>
   localStorage (snd (onSubmit asciiLower 1735689600000
         (Some (js ''ALICE@example.com'')) (Some (js ''pw'')) ?q)) SESSION_FLAG_KEY = None \<and>
   querySelector is_form_message (formChildren (snd (onSubmit asciiLower
         1735689600000 (Some (js ''ALICE@example.com'')) (Some (js ''pw'')) ?q)))
     = Some (Node \<lparr>nid = 4, tagName = ''div'', classList = [''form-message'', ''error''],
                   typeAttr = None, disabled = False,
                   textContent = js ''Sign-in failed. Please try again.''\<rparr> []) \<and>
   timers (snd (onSubmit asciiLower 1735689600000
         (Some (js ''ALICE@example.com'')) (Some (js ''pw'')) ?q)) = [(5000, RemoveElement 4)]"
    using d k
    by (cases rule: onSubmit_cases[of "Some (js ''ALICE@example.com'')" "Some (js ''pw'')"
          asciiLower 1735689600000 ?q])
       (simp_all add: showErrorMessage_query showErrorMessage_fields effect_defs acceptedLog_def
          examplePage_fields createMessage_def)
  have v: "isValidEmail (JSString (trim (js ''ALICE@example.com'')))" "blank (js ''  '')"
    "js ''  '' \<noteq> []"
    by (simp_all add: blank_def isValidEmail_def emailRegex_def plus_def lit_def notSpaceAt_def
        js_def trim_def isWhiteSpace_def)
  have second: "fst (onSubmit asciiLower 1735689600000 (Some (js ''ALICE@example.com''))
         (Some (js ''  '')) examplePage) = RejectedEmptyPassword"
    using v by (simp add: submit_empty_password)
  show ?thesis using first second v(3) by blast
qed

theorem accepted_effects_witness:
  "fst (getItem REGISTERED_EMAIL_KEY examplePage) = Inr (JSString storedAlice) \<and>
   fst (onSubmit asciiLower 1735689600000 (Some (js ''ALICE@example.com''))
         (Some (js ''pw'')) examplePage) = Accepted \<and>
   \<not> quotaExceeded examplePage \<and>
   dispatched (snd (onSubmit asciiLower 1735689600000
         (Some (js ''ALICE@example.com'')) (Some (js ''pw'')) examplePage))
     = [\<lparr>eventType = js ''login'', bubbles = True, detailEmail = js ''ALICE@example.com'',
         detailTimestamp = js ''2025-01-01T00:00:00.000Z''\<rparr>] \<and>
   timers (snd (onSubmit asciiLower 1735689600000
         (Some (js ''ALICE@example.com'')) (Some (js ''pw'')) examplePage))
     = [(1500, Redirect (js ''/''))] \<and>
   localStorage (snd (onSubmit asciiLower 1735689600000
         (Some (js ''ALICE@example.com'')) (Some (js ''pw'')) examplePage)) SESSION_FLAG_KEY
     = Some (js ''true'')"
proof -
  have g: "fst (getItem REGISTERED_EMAIL_KEY examplePage) = Inr (JSString storedAlice)"
    by (simp add: getItem_def examplePage_fields)
  have h: "asciiLower (js ''ALICE@example.com'') = asciiLower (js ''alice@example.com'') \<and>
      \<not> blank (js ''pw'')"
    by (simp add: asciiLower_def blank_def js_def isWhiteSpace_def)
  have t: "trim (js ''ALICE@example.com'') = js ''ALICE@example.com''"
    by (simp add: js_def trim_def isWhiteSpace_def)
  have iso: "toISOString 1735689600000 = js ''2025-01-01T00:00:00.000Z''"
    by (simp add: toISOString_def yearFromDays.simps daysInYear_def isLeapYear_def
        monthLengths_def yearString_def pad2_def pad3_def pad4_def digit_def js_def)
  have a: "fst (onSubmit asciiLower 1735689600000
      (Some (js ''ALICE@example.com'')) (Some (js ''pw'')) examplePage) = Accepted"
    using accepted_effects [of asciiLower 1735689600000 "js ''ALICE@example.com''" "js ''pw''"
        examplePage] g h
    by blast
  show ?thesis
    using accepted_effects [of asciiLower 1735689600000 "js ''ALICE@example.com''" "js ''pw''"
        examplePage] a g
    by (simp add: examplePage_fields t iso)
qed

end
